theory Spec2Isabelle
  imports Complex_Main "HOL-Library.Multiset"
begin

chapter \<open>The scripts\<close>

section \<open>Values of the JavaScript runtime\<close>

text \<open>
  The three scripts (the basic checker with progress display, the advanced checker that
  discovers spenders from Approval events, and the earlier basic checker without progress
  display) work on JavaScript strings, BigInt amounts and double-precision numbers.

  Strings are modelled as byte lists in UTF-8, BigInt amounts read from the chain
  (\<open>uint256\<close> results) as natural numbers, and finite doubles as the real numbers they
  denote. Operations on doubles that round (division, multiplication, addition,
  \<open>parseFloat\<close>) are parameters of the environment; comparisons and \<open>Math.floor\<close> of
  finite doubles are exact and are modelled by the corresponding operations on reals.
  \<open>NaN\<close> prices (an unparsable price column) are outside the model.
\<close>

definition digitChar :: "nat \<Rightarrow> char" where
  "digitChar d = char_of (48 + d)"

definition digitValue :: "char \<Rightarrow> nat" where
  "digitValue c = of_char c - 48"

text \<open>\<open>BigInt.prototype.toString()\<close>: the decimal digits, most significant first.\<close>

function toString :: "nat \<Rightarrow> string" where
  "toString n = (if n < 10 then [digitChar n] else toString (n div 10) @ [digitChar (n mod 10)])"
  by pat_completeness auto
termination
  by (relation "measure id") auto

declare toString.simps [simp del]

text \<open>Reading a decimal string back as a number (used to state properties of the raw
  fields of a record, which the scripts store as decimal strings).\<close>

definition parseBigInt :: "string \<Rightarrow> nat" where
  "parseBigInt s = foldl (\<lambda>acc c. acc * 10 + digitValue c) 0 s"

text \<open>\<open>ethers.MaxUint256\<close>.\<close>

definition MaxUint256 :: nat where
  "MaxUint256 = 2 ^ 256 - 1"

text \<open>The string \<open>'\<infinity>'\<close> (U+221E) and the placeholder symbol of a token whose metadata
  cannot be read (U+672A U+77E5), as UTF-8 bytes.\<close>

definition infinitySymbol :: string where
  "infinitySymbol = [char_of (226::nat), char_of (136::nat), char_of (158::nat)]"

definition unknownSymbol :: string where
  "unknownSymbol = [char_of (230::nat), char_of (156::nat), char_of (170::nat),
                    char_of (231::nat), char_of (159::nat), char_of (165::nat)]"

definition stablecoins :: "string list" where
  "stablecoins = [''USDT'', ''USDC'', ''DAI'', ''BUSD'', ''TUSD'', ''USDK'', ''GUSD'']"

section \<open>The environment: chain client and library calls\<close>

text \<open>
  A token line of the input: the contract address and the caller-supplied price
  (\<open>null\<close> when the line has no price column).
\<close>

record tokenInput =
  tokAddress :: string
  tokPrice :: "real option"

text \<open>
  Everything the scripts call but do not define. A call that rejects or throws is \<open>None\<close>
  (\<open>False\<close> for the contract constructor).
  \<^item> \<open>newContract t\<close>: \<open>new ethers.Contract(t, ERC20_ABI, provider)\<close> returns normally;
  \<^item> \<open>symbolDecimals t\<close>: \<open>Promise.all([symbol(), decimals()])\<close> on the contract at \<open>t\<close>;
  \<^item> \<open>balanceOf t owner\<close>, \<open>allowanceOf t owner spender\<close>: the two read calls;
  \<^item> \<open>getBlockNumber\<close>: the current block height;
  \<^item> \<open>queryFilter t owner from to\<close>: the spenders of the Approval events of \<open>owner\<close> in
    the block window, in the order returned;
  \<^item> \<open>formatUnits v d\<close>: \<open>ethers.formatUnits\<close>;
  \<^item> \<open>parseFloat\<close>, \<open>fmul\<close>, \<open>fdiv\<close>, \<open>fadd\<close>: \<open>parseFloat\<close> and the rounding arithmetic of
    doubles;
  \<^item> \<open>toFixed x n\<close>, \<open>numberToString x\<close>: \<open>x.toFixed(n)\<close> and the string a template
    literal makes of a number.
  The chain state is the same for the whole run: a call with the same arguments has the
  same outcome each time it is made.
\<close>

record env =
  newContract :: "string \<Rightarrow> bool"
  symbolDecimals :: "string \<Rightarrow> (string \<times> nat) option"
  balanceOf :: "string \<Rightarrow> string \<Rightarrow> nat option"
  allowanceOf :: "string \<Rightarrow> string \<Rightarrow> string \<Rightarrow> nat option"
  getBlockNumber :: "int option"
  queryFilter :: "string \<Rightarrow> string \<Rightarrow> int \<Rightarrow> int \<Rightarrow> string list option"
  formatUnits :: "nat \<Rightarrow> nat \<Rightarrow> string option"
  parseFloat :: "string \<Rightarrow> real"
  fmul :: "real \<Rightarrow> real \<Rightarrow> real"
  fdiv :: "real \<Rightarrow> real \<Rightarrow> real"
  fadd :: "real \<Rightarrow> real \<Rightarrow> real"
  toFixed :: "real \<Rightarrow> nat \<Rightarrow> string"
  numberToString :: "real \<Rightarrow> string"

section \<open>Approval records\<close>

record approvalRecord =
  walletAddress :: string
  tokenAddress :: string
  tokenSymbol :: string
  spenderAddress :: string
  allowance :: string
  rawAllowance :: string
  isInfiniteApproval :: bool
  balance :: string
  rawBalance :: string
  exposedAmount :: string
  rawExposedAmount :: string
  price :: "real option"
  exposedValueUSD :: "real option"

text \<open>The calls of \<open>logger.warn\<close>, by the place that makes them.\<close>

datatype warning =
    TokenInfoWarning string
  | BalanceWarning string string
  | AllowanceWarning string string string
  | EventsWarning string
  | TokenWarning string

text \<open>
  The body of the per-spender \<open>try\<close> block after the allowance has been read, the same
  text in the three scripts: the infinite-approval test, the formatted allowance, the exposed
  amount, its USD value, and the record pushed to \<open>results\<close>. \<open>None\<close> when
  \<open>formatUnits\<close> throws, which the enclosing \<open>catch\<close> turns into a warning.
\<close>

definition exposureRecord ::
  "env \<Rightarrow> string \<Rightarrow> string \<Rightarrow> string \<Rightarrow> nat \<Rightarrow> real option \<Rightarrow> nat \<Rightarrow> string \<Rightarrow> nat
    \<Rightarrow> approvalRecord option" where
  "exposureRecord e address tokenAddr symbol decimals prc bal spender allow =
    (let isInfinite = (toString allow = toString MaxUint256) in
     case (if isInfinite then Some infinitySymbol else formatUnits e allow decimals) of
       None \<Rightarrow> None
     | Some formattedAllowance \<Rightarrow>
        (let exposed = (if isInfinite then bal else if allow > bal then bal else allow) in
         case formatUnits e exposed decimals of
           None \<Rightarrow> None
         | Some formattedExposedAmount \<Rightarrow>
            (let usd = (case prc of
                          None \<Rightarrow> None
                        | Some p \<Rightarrow> Some (fmul e (parseFloat e formattedExposedAmount) p)) in
             case formatUnits e bal decimals of
               None \<Rightarrow> None
             | Some formattedBalance \<Rightarrow>
                 Some \<lparr> walletAddress = address,
                        tokenAddress = tokenAddr,
                        tokenSymbol = symbol,
                        spenderAddress = spender,
                        allowance = formattedAllowance,
                        rawAllowance = toString allow,
                        isInfiniteApproval = isInfinite,
                        balance = formattedBalance,
                        rawBalance = toString bal,
                        exposedAmount = formattedExposedAmount,
                        rawExposedAmount = toString exposed,
                        price = prc,
                        exposedValueUSD = usd \<rparr>)))"

text \<open>
  Token metadata and price: symbol and decimals are read together; with no caller price a
  stablecoin symbol gives price 1, any other symbol no price. When the read fails the
  placeholder symbol and 18 decimals are used, with the caller's price, and a warning is
  logged.
\<close>

definition resolveToken :: "env \<Rightarrow> tokenInput \<Rightarrow> (string \<times> nat \<times> real option) \<times> warning list" where
  "resolveToken e tokenInfo =
    (case symbolDecimals e (tokAddress tokenInfo) of
       Some (symbol, decimals) \<Rightarrow>
         ((symbol, decimals,
           (if tokPrice tokenInfo = None
            then (if symbol \<in> set stablecoins then Some 1 else None)
            else tokPrice tokenInfo)), [])
     | None \<Rightarrow>
         ((unknownSymbol, 18, tokPrice tokenInfo), [TokenInfoWarning (tokAddress tokenInfo)]))"

text \<open>
  The balance of a wallet: zero unless the read succeeds. The debug line formats the balance
  inside the same \<open>try\<close>, so a throwing \<open>formatUnits\<close> also logs the warning, after the
  balance has been assigned.
\<close>

definition fetchBalance :: "env \<Rightarrow> string \<Rightarrow> string \<Rightarrow> nat \<Rightarrow> string \<Rightarrow> nat \<times> warning list" where
  "fetchBalance e tokenAddr symbol decimals address =
    (case balanceOf e tokenAddr address of
       None \<Rightarrow> (0, [BalanceWarning address symbol])
     | Some b \<Rightarrow>
        (case formatUnits e b decimals of
           None \<Rightarrow> (b, [BalanceWarning address symbol])
         | Some _ \<Rightarrow> (b, [])))"

text \<open>
  One spender in basic mode: read the allowance and build the record, whatever the
  allowance is; any failure is caught, logged, and leaves no record.
\<close>

definition checkSpender ::
  "env \<Rightarrow> string \<Rightarrow> string \<Rightarrow> string \<Rightarrow> nat \<Rightarrow> real option \<Rightarrow> nat \<Rightarrow> string
    \<Rightarrow> approvalRecord list \<times> warning list" where
  "checkSpender e address tokenAddr symbol decimals prc bal spender =
    (case allowanceOf e tokenAddr address spender of
       None \<Rightarrow> ([], [AllowanceWarning address tokenAddr spender])
     | Some allow \<Rightarrow>
        (case exposureRecord e address tokenAddr symbol decimals prc bal spender allow of
           None \<Rightarrow> ([], [AllowanceWarning address tokenAddr spender])
         | Some r \<Rightarrow> ([r], [])))"

text \<open>
  One discovered spender in advanced mode: as above, but an allowance whose decimal string
  is \<open>'0'\<close> is skipped without a record and without a warning.
\<close>

definition checkDiscovered ::
  "env \<Rightarrow> string \<Rightarrow> string \<Rightarrow> string \<Rightarrow> nat \<Rightarrow> real option \<Rightarrow> nat \<Rightarrow> string
    \<Rightarrow> approvalRecord list \<times> warning list" where
  "checkDiscovered e address tokenAddr symbol decimals prc bal spender =
    (case allowanceOf e tokenAddr address spender of
       None \<Rightarrow> ([], [AllowanceWarning address tokenAddr spender])
     | Some allow \<Rightarrow>
        if toString allow = ''0'' then ([], [])
        else
          (case exposureRecord e address tokenAddr symbol decimals prc bal spender allow of
             None \<Rightarrow> ([], [AllowanceWarning address tokenAddr spender])
           | Some r \<Rightarrow> ([r], [])))"

section \<open>Run state\<close>

text \<open>
  A JavaScript number that holds a count: an integer or \<open>NaN\<close>. \<open>%\<close> takes the sign of
  the dividend and is \<open>NaN\<close> for a zero divisor.
\<close>

datatype jsnum = Num int | NaN

fun jsAdd :: "jsnum \<Rightarrow> jsnum \<Rightarrow> jsnum" where
  "jsAdd (Num a) (Num b) = Num (a + b)"
| "jsAdd _ _ = NaN"

fun jsSub :: "jsnum \<Rightarrow> jsnum \<Rightarrow> jsnum" where
  "jsSub (Num a) (Num b) = Num (a - b)"
| "jsSub _ _ = NaN"

fun jsMod :: "jsnum \<Rightarrow> jsnum \<Rightarrow> jsnum" where
  "jsMod (Num a) (Num b) = (if b = 0 then NaN else Num (sgn a * (\<bar>a\<bar> mod \<bar>b\<bar>)))"
| "jsMod _ _ = NaN"

text \<open>
  The variables a run updates: the \<open>results\<close> array, the \<open>completedTasks\<close> counter and the
  warnings logged so far. The progress display (\<open>updateProgress\<close>, modelled on its own
  below) reads the counter and writes only its own variables and the terminal.
\<close>

record runState =
  results :: "approvalRecord list"
  completedTasks :: jsnum
  warnings :: "warning list"

definition initialState :: runState where
  "initialState = \<lparr> results = [], completedTasks = Num 0, warnings = [] \<rparr>"

text \<open>A run either leaves through \<open>process.exit\<close> or returns.\<close>

datatype 'a outcome = Exit nat | Done 'a

text \<open>
  The waves: \<open>for (let i = 0; i < xs.length; i += batchSize) push(xs.slice(i, i + batchSize))\<close>.
\<close>

definition batchSize :: nat where
  "batchSize = 3"

function batchesFrom :: "'a list \<Rightarrow> nat \<Rightarrow> 'a list list" where
  "batchesFrom xs i =
     (if i < length xs then take batchSize (drop i xs) # batchesFrom xs (i + batchSize) else [])"
  by pat_completeness auto
termination
  by (relation "measure (\<lambda>(xs, i). length xs - i)") (auto simp: batchSize_def)

declare batchesFrom.simps [simp del]

section \<open>Basic mode with progress display\<close>

text \<open>
  One task of a wave: the spender's check, then, in \<open>finally\<close>, the counter. The tasks of a
  wave are modelled as running to completion one after the other, in the order of the wave;
  the script starts them together, and they only append to \<open>results\<close> and increment the
  counter, so another interleaving permutes the records of a wave and nothing else.
\<close>

definition spenderTask ::
  "env \<Rightarrow> string \<Rightarrow> string \<Rightarrow> string \<Rightarrow> nat \<Rightarrow> real option \<Rightarrow> nat \<Rightarrow> runState \<Rightarrow> string
    \<Rightarrow> runState" where
  "spenderTask e address tokenAddr symbol decimals prc bal st spender =
    (case checkSpender e address tokenAddr symbol decimals prc bal spender of
       (rs, ws) \<Rightarrow>
         st \<lparr> results := results st @ rs,
              warnings := warnings st @ ws,
              completedTasks := jsAdd (completedTasks st) (Num 1) \<rparr>)"

text \<open>
  One token for one wallet. When the outer \<open>try\<close> fails (the contract cannot be created) the
  \<open>catch\<close> logs a warning and counts all spenders of the pair as completed.
\<close>

definition checkToken :: "env \<Rightarrow> string \<Rightarrow> string list \<Rightarrow> runState \<Rightarrow> tokenInput \<Rightarrow> runState" where
  "checkToken e address spenders st tokenInfo =
    (let tokenAddr = tokAddress tokenInfo in
     if \<not> newContract e tokenAddr
     then st \<lparr> warnings := warnings st @ [TokenWarning tokenAddr],
               completedTasks := jsAdd (completedTasks st) (Num (int (length spenders))) \<rparr>
     else
       (case resolveToken e tokenInfo of
          ((symbol, decimals, prc), w1) \<Rightarrow>
            (case fetchBalance e tokenAddr symbol decimals address of
               (bal, w2) \<Rightarrow>
                 foldl (foldl (spenderTask e address tokenAddr symbol decimals prc bal))
                   (st \<lparr> warnings := warnings st @ w1 @ w2 \<rparr>)
                   (batchesFrom spenders 0))))"

text \<open>\<open>checkApprovals\<close> of the basic checker: an empty spender list is an error and ends
  the process with status 1 before the loops.\<close>

definition checkApprovals ::
  "env \<Rightarrow> string list \<Rightarrow> tokenInput list \<Rightarrow> string list \<Rightarrow> runState outcome" where
  "checkApprovals e addresses tokens spenders =
    (if length spenders = 0 then Exit 1
     else Done (foldl (\<lambda>st address. foldl (checkToken e address spenders) st tokens)
                  initialState addresses))"

section \<open>Basic mode without progress display\<close>

text \<open>The earlier script: the same steps, one spender after the other, no counter.\<close>

definition plainSpender ::
  "env \<Rightarrow> string \<Rightarrow> string \<Rightarrow> string \<Rightarrow> nat \<Rightarrow> real option \<Rightarrow> nat
    \<Rightarrow> approvalRecord list \<times> warning list \<Rightarrow> string \<Rightarrow> approvalRecord list \<times> warning list" where
  "plainSpender e address tokenAddr symbol decimals prc bal acc spender =
    (case checkSpender e address tokenAddr symbol decimals prc bal spender of
       (rs, ws) \<Rightarrow> (fst acc @ rs, snd acc @ ws))"

definition plainToken ::
  "env \<Rightarrow> string \<Rightarrow> string list \<Rightarrow> approvalRecord list \<times> warning list \<Rightarrow> tokenInput
    \<Rightarrow> approvalRecord list \<times> warning list" where
  "plainToken e address spenders acc tokenInfo =
    (let tokenAddr = tokAddress tokenInfo in
     if \<not> newContract e tokenAddr then (fst acc, snd acc @ [TokenWarning tokenAddr])
     else
       (case resolveToken e tokenInfo of
          ((symbol, decimals, prc), w1) \<Rightarrow>
            (case fetchBalance e tokenAddr symbol decimals address of
               (bal, w2) \<Rightarrow>
                 foldl (plainSpender e address tokenAddr symbol decimals prc bal)
                   (fst acc, snd acc @ w1 @ w2) spenders)))"

definition checkApprovalsPlain ::
  "env \<Rightarrow> string list \<Rightarrow> tokenInput list \<Rightarrow> string list
    \<Rightarrow> (approvalRecord list \<times> warning list) outcome" where
  "checkApprovalsPlain e addresses tokens spenders =
    (if length spenders = 0 then Exit 1
     else Done (foldl (\<lambda>acc address. foldl (plainToken e address spenders) acc tokens)
                  ([], []) addresses))"

section \<open>Advanced mode\<close>

text \<open>
  The loop over the events of one wallet: a spender already in \<open>processedSpenders\<close> is
  skipped, a new one is added to the set and checked.
\<close>

fun processEvents ::
  "env \<Rightarrow> string \<Rightarrow> string \<Rightarrow> string \<Rightarrow> nat \<Rightarrow> real option \<Rightarrow> nat \<Rightarrow> string list \<Rightarrow> string set
    \<Rightarrow> approvalRecord list \<times> warning list" where
  "processEvents e address tokenAddr symbol decimals prc bal [] processedSpenders = ([], [])"
| "processEvents e address tokenAddr symbol decimals prc bal (spender # events) processedSpenders =
    (if spender \<in> processedSpenders
     then processEvents e address tokenAddr symbol decimals prc bal events processedSpenders
     else
       (case checkDiscovered e address tokenAddr symbol decimals prc bal spender of
          (rs, ws) \<Rightarrow>
            (case processEvents e address tokenAddr symbol decimals prc bal events
                    (insert spender processedSpenders) of
               (rs', ws') \<Rightarrow> (rs @ rs', ws @ ws'))))"

text \<open>The spenders the loop checks, in the order it checks them.\<close>

fun newSpenders :: "string list \<Rightarrow> string set \<Rightarrow> string list" where
  "newSpenders [] processedSpenders = []"
| "newSpenders (spender # events) processedSpenders =
    (if spender \<in> processedSpenders then newSpenders events processedSpenders
     else spender # newSpenders events (insert spender processedSpenders))"

text \<open>
  One task of a wave: balance, event query, the loop over the events, and in \<open>finally\<close> the
  counter. A failed event query is logged and leaves the wallet without records.
\<close>

definition addressTask ::
  "env \<Rightarrow> string \<Rightarrow> string \<Rightarrow> nat \<Rightarrow> real option \<Rightarrow> int \<Rightarrow> int \<Rightarrow> runState \<Rightarrow> string
    \<Rightarrow> runState" where
  "addressTask e tokenAddr symbol decimals prc startBlock currentBlock st address =
    (case fetchBalance e tokenAddr symbol decimals address of
       (bal, w1) \<Rightarrow>
         (case (case queryFilter e tokenAddr address startBlock currentBlock of
                  None \<Rightarrow> ([], [EventsWarning address])
                | Some events \<Rightarrow>
                    processEvents e address tokenAddr symbol decimals prc bal events {}) of
            (rs, w2) \<Rightarrow>
              st \<lparr> results := results st @ rs,
                   warnings := warnings st @ w1 @ w2,
                   completedTasks := jsAdd (completedTasks st) (Num 1) \<rparr>))"

text \<open>
  One token. When the outer \<open>try\<close> fails the \<open>catch\<close> adds
  \<open>addresses.length - completedTasks % addresses.length\<close> to the counter.
\<close>

definition findToken ::
  "env \<Rightarrow> string list \<Rightarrow> int \<Rightarrow> int \<Rightarrow> runState \<Rightarrow> tokenInput \<Rightarrow> runState" where
  "findToken e addresses startBlock currentBlock st tokenInfo =
    (let tokenAddr = tokAddress tokenInfo in
     if \<not> newContract e tokenAddr
     then
       (let remainingAddresses =
              jsSub (Num (int (length addresses)))
                (jsMod (completedTasks st) (Num (int (length addresses)))) in
        st \<lparr> warnings := warnings st @ [TokenWarning tokenAddr],
             completedTasks := jsAdd (completedTasks st) remainingAddresses \<rparr>)
     else
       (case resolveToken e tokenInfo of
          ((symbol, decimals, prc), w1) \<Rightarrow>
            foldl (foldl (addressTask e tokenAddr symbol decimals prc startBlock currentBlock))
              (st \<lparr> warnings := warnings st @ w1 \<rparr>)
              (batchesFrom addresses 0)))"

text \<open>
  \<open>findAndCheckApprovals\<close>: the block window, then every token. A failing
  \<open>getBlockNumber\<close> is not caught here: \<open>main\<close> logs it and exits with status 1.
\<close>

definition findAndCheckApprovals ::
  "env \<Rightarrow> string list \<Rightarrow> tokenInput list \<Rightarrow> int \<Rightarrow> runState outcome" where
  "findAndCheckApprovals e addresses tokens lookbackBlocks =
    (case getBlockNumber e of
       None \<Rightarrow> Exit 1
     | Some currentBlock \<Rightarrow>
        (let startBlock = max 0 (currentBlock - lookbackBlocks) in
         Done (foldl (findToken e addresses startBlock currentBlock) initialState tokens)))"

section \<open>Progress display\<close>

text \<open>
  A double that need not be finite: the quotient \<open>completedTasks / totalTasks\<close> is \<open>NaN\<close>
  or infinite when no task exists.
\<close>

datatype double = Fin real | PosInf | NegInf | NotANumber

fun jsDivide :: "env \<Rightarrow> jsnum \<Rightarrow> nat \<Rightarrow> double" where
  "jsDivide e (Num c) t =
     (if t = 0 then (if c = 0 then NotANumber else if 0 < c then PosInf else NegInf)
      else Fin (fdiv e (of_int c) (of_nat t)))"
| "jsDivide e NaN t = NotANumber"

fun jsTimes :: "env \<Rightarrow> double \<Rightarrow> real \<Rightarrow> double" where
  "jsTimes e (Fin x) y = Fin (fmul e x y)"
| "jsTimes e d y = d"

fun jsFloor :: "double \<Rightarrow> double" where
  "jsFloor (Fin x) = Fin (of_int \<lfloor>x\<rfloor>)"
| "jsFloor d = d"

fun jsGreater :: "double \<Rightarrow> double \<Rightarrow> bool" where
  "jsGreater (Fin a) (Fin b) = (b < a)"
| "jsGreater PosInf (Fin b) = True"
| "jsGreater PosInf NegInf = True"
| "jsGreater (Fin a) NegInf = True"
| "jsGreater _ _ = False"

text \<open>The remaining time as the status line shows it.\<close>

datatype eta = Computing | Seconds int | Minutes int | Hours string

definition formatRemaining :: "env \<Rightarrow> real \<Rightarrow> eta" where
  "formatRemaining e remainingTime =
    (if remainingTime < 60 then Seconds \<lceil>remainingTime\<rceil>
     else if remainingTime < 3600 then Minutes \<lceil>fdiv e remainingTime 60\<rceil>
     else Hours (toFixed e (fdiv e remainingTime 3600) 1))"

definition etaOf :: "env \<Rightarrow> int \<Rightarrow> nat \<Rightarrow> jsnum \<Rightarrow> int \<Rightarrow> eta" where
  "etaOf e startTime totalTasks completed now =
    (let elapsed = fdiv e (of_int (now - startTime)) 1000 in
     case completed of
       NaN \<Rightarrow> Computing
     | Num c \<Rightarrow>
        if 0 < c then
          (let timePerTask = fdiv e elapsed (of_int c);
               remainingTasks = int totalTasks - c;
               remainingTime = fmul e timePerTask (of_int remainingTasks)
           in formatRemaining e remainingTime)
        else Computing)"

text \<open>
  A status line written to the terminal: the time of the write and what the message shows.
\<close>

record statusLine =
  writtenAt :: int
  shownCompleted :: jsnum
  shownTotal :: nat
  shownPercent :: double
  shownEta :: eta
  shownAction :: string

text \<open>The variables of the progress display and the lines written so far.\<close>

record progress =
  lastUpdate :: int
  lastProgress :: double
  written :: "statusLine list"

definition initialProgress :: "int \<Rightarrow> progress" where
  "initialProgress startTime = \<lparr> lastUpdate = startTime, lastProgress = Fin 0, written = [] \<rparr>"

definition percentOf :: "env \<Rightarrow> jsnum \<Rightarrow> nat \<Rightarrow> double" where
  "percentOf e completed totalTasks = jsFloor (jsTimes e (jsDivide e completed totalTasks) 100)"

text \<open>
  \<open>updateProgress\<close>, called at time \<open>now\<close> with the counter at \<open>completed\<close>. The basic
  checker's version has no \<open>currentAction\<close>; it is the call with an empty action.
\<close>

definition updateProgress ::
  "env \<Rightarrow> int \<Rightarrow> nat \<Rightarrow> jsnum \<Rightarrow> int \<Rightarrow> bool \<Rightarrow> string \<Rightarrow> progress \<Rightarrow> progress" where
  "updateProgress e startTime totalTasks completed now force currentAction p =
    (let percent = percentOf e completed totalTasks in
     if force \<or> now - lastUpdate p \<ge> 500 \<or> jsGreater percent (lastProgress p)
     then \<lparr> lastUpdate = now,
            lastProgress = percent,
            written = written p @
              [\<lparr> writtenAt = now, shownCompleted = completed, shownTotal = totalTasks,
                 shownPercent = percent,
                 shownEta = etaOf e startTime totalTasks completed now,
                 shownAction = currentAction \<rparr>] \<rparr>
     else p)"

section \<open>Display and export\<close>

text \<open>The summary printed under the table.\<close>

record summary =
  uniqueWallets :: nat
  uniqueTokens :: nat
  uniqueSpenders :: nat
  infiniteApprovals :: nat
  totalExposedValueUSD :: real
  exposedValueCount :: nat

definition summarize :: "env \<Rightarrow> approvalRecord list \<Rightarrow> summary" where
  "summarize e results' =
    \<lparr> uniqueWallets = card (set (map walletAddress results')),
      uniqueTokens = card (set (map tokenAddress results')),
      uniqueSpenders = card (set (map spenderAddress results')),
      infiniteApprovals = length (filter isInfiniteApproval results'),
      totalExposedValueUSD =
        foldl (\<lambda>total result.
                 case exposedValueUSD result of None \<Rightarrow> total | Some v \<Rightarrow> fadd e total v)
          0 results',
      exposedValueCount = length (filter (\<lambda>result. exposedValueUSD result \<noteq> None) results') \<rparr>"

definition MAX_DISPLAY_ROWS :: nat where
  "MAX_DISPLAY_ROWS = 100"

text \<open>
  The records with a known USD value, sorted by \<open>(a, b) => b.exposedValueUSD -
  a.exposedValueUSD\<close>: a stable sort (as \<open>Array.prototype.sort\<close> is) in descending
  order of the value.
\<close>

definition sortedResults :: "approvalRecord list \<Rightarrow> approvalRecord list" where
  "sortedResults results' =
     sort_key (\<lambda>r. - the (exposedValueUSD r))
       (filter (\<lambda>r. exposedValueUSD r \<noteq> None) results')"

definition sameTriple :: "approvalRecord \<Rightarrow> approvalRecord \<Rightarrow> bool" where
  "sameTriple r result =
    (walletAddress r = walletAddress result \<and>
     tokenAddress r = tokenAddress result \<and>
     spenderAddress r = spenderAddress result)"

text \<open>The loop that appends the infinite approvals not yet in \<open>importantResults\<close>.\<close>

fun mergeImportant :: "approvalRecord list \<Rightarrow> approvalRecord list \<Rightarrow> approvalRecord list" where
  "mergeImportant importantResults [] = importantResults"
| "mergeImportant importantResults (result # infiniteResults) =
     mergeImportant
       (if \<not> list_ex (\<lambda>r. sameTriple r result) importantResults
        then importantResults @ [result] else importantResults)
       infiniteResults"

text \<open>The rows of the table.\<close>

definition displayRows :: "approvalRecord list \<Rightarrow> approvalRecord list" where
  "displayRows results' =
    (if length results' > MAX_DISPLAY_ROWS
     then
       (let highValueResults = take (MAX_DISPLAY_ROWS div 2) (sortedResults results');
            infiniteResults = take (MAX_DISPLAY_ROWS div 2) (filter isInfiniteApproval results')
        in take MAX_DISPLAY_ROWS (mergeImportant highValueResults infiniteResults))
     else results')"

text \<open>
  \<open>displayResults\<close> of the advanced checker and of the basic checker with progress display:
  nothing but a log line for an empty collection, otherwise the table rows and the summary.
  (The earlier basic checker prints every record and has no ceiling.)
\<close>

definition displayResults :: "env \<Rightarrow> approvalRecord list \<Rightarrow> (approvalRecord list \<times> summary) option" where
  "displayResults e results' =
    (if length results' = 0 then None
     else Some (displayRows results', summarize e results'))"

text \<open>\<open>exportResults\<close>: the header and one line per record.\<close>

definition csvHeader :: string where
  "csvHeader = ''WalletAddress,TokenAddress,TokenSymbol,SpenderAddress,Allowance,Balance,ExposedAmount,Price,ExposedValueUSD,IsInfiniteApproval'' @ [CHR 0x0A]"

definition csvLine :: "env \<Rightarrow> approvalRecord \<Rightarrow> string" where
  "csvLine e result =
    (let exposedValue = (case exposedValueUSD result of
                           Some v \<Rightarrow> toFixed e v 2 | None \<Rightarrow> ''unknown'');
         prc = (case price result of Some p \<Rightarrow> numberToString e p | None \<Rightarrow> ''unknown'')
     in walletAddress result @ '','' @ tokenAddress result @ '','' @ tokenSymbol result @ '',''
        @ spenderAddress result @ '','' @ allowance result @ '','' @ balance result @ '',''
        @ exposedAmount result @ '','' @ prc @ '','' @ exposedValue @ '',''
        @ (if isInfiniteApproval result then ''true'' else ''false'') @ [CHR 0x0A])"

definition exportResults :: "env \<Rightarrow> approvalRecord list \<Rightarrow> string" where
  "exportResults e results' = foldl (\<lambda>csv result. csv @ csvLine e result) csvHeader results'"

text \<open>The end of \<open>main\<close>: the results are displayed, and exported when a path is given.\<close>

definition report ::
  "env \<Rightarrow> approvalRecord list \<Rightarrow> bool
    \<Rightarrow> (approvalRecord list \<times> summary) option \<times> string option" where
  "report e results' export =
    (displayResults e results', if export then Some (exportResults e results') else None)"

chapter \<open>Derived notions\<close>

text \<open>
  Names for what a single work item contributes to a run and for where a record comes
  from; and a small chain on which the scripts are run on concrete inputs.
\<close>

text \<open>
  What the check of one triple contributes in basic mode: the records (none or one) and the
  warnings of the spender, and the warnings of a wallet and token with all its spenders.
\<close>

definition tripleRecords :: "env \<Rightarrow> string \<Rightarrow> tokenInput \<Rightarrow> string \<Rightarrow> approvalRecord list" where
  "tripleRecords e address tokenInfo spender =
    (if newContract e (tokAddress tokenInfo)
     then (case resolveToken e tokenInfo of
             ((symbol, decimals, prc), w1) \<Rightarrow>
               (case fetchBalance e (tokAddress tokenInfo) symbol decimals address of
                  (bal, w2) \<Rightarrow>
                    fst (checkSpender e address (tokAddress tokenInfo) symbol decimals prc bal spender)))
     else [])"

definition tripleWarnings :: "env \<Rightarrow> string \<Rightarrow> tokenInput \<Rightarrow> string \<Rightarrow> warning list" where
  "tripleWarnings e address tokenInfo spender =
    (case resolveToken e tokenInfo of
       ((symbol, decimals, prc), w1) \<Rightarrow>
         (case fetchBalance e (tokAddress tokenInfo) symbol decimals address of
            (bal, w2) \<Rightarrow>
              snd (checkSpender e address (tokAddress tokenInfo) symbol decimals prc bal spender)))"

definition pairWarnings :: "env \<Rightarrow> string \<Rightarrow> string list \<Rightarrow> tokenInput \<Rightarrow> warning list" where
  "pairWarnings e address spenders tokenInfo =
    (if newContract e (tokAddress tokenInfo)
     then (case resolveToken e tokenInfo of
             ((symbol, decimals, prc), w1) \<Rightarrow>
               (case fetchBalance e (tokAddress tokenInfo) symbol decimals address of
                  (bal, w2) \<Rightarrow>
                    w1 @ w2 @ concat (map (tripleWarnings e address tokenInfo) spenders)))
     else [TokenWarning (tokAddress tokenInfo)])"

text \<open>
  What one wallet contributes for a token in advanced mode, and the warnings of a token with
  all its wallets.
\<close>

definition walletRecords ::
  "env \<Rightarrow> tokenInput \<Rightarrow> int \<Rightarrow> int \<Rightarrow> string \<Rightarrow> approvalRecord list" where
  "walletRecords e tokenInfo startBlock currentBlock address =
    (if newContract e (tokAddress tokenInfo)
     then (case resolveToken e tokenInfo of
             ((symbol, decimals, prc), w1) \<Rightarrow>
               (case fetchBalance e (tokAddress tokenInfo) symbol decimals address of
                  (bal, w2) \<Rightarrow>
                    (case queryFilter e (tokAddress tokenInfo) address startBlock currentBlock of
                       None \<Rightarrow> []
                     | Some events \<Rightarrow>
                         concat (map (\<lambda>s. fst (checkDiscovered e address (tokAddress tokenInfo)
                                               symbol decimals prc bal s))
                                   (newSpenders events {})))))
     else [])"

definition walletWarnings ::
  "env \<Rightarrow> tokenInput \<Rightarrow> int \<Rightarrow> int \<Rightarrow> string \<Rightarrow> warning list" where
  "walletWarnings e tokenInfo startBlock currentBlock address =
    (case resolveToken e tokenInfo of
       ((symbol, decimals, prc), w1) \<Rightarrow>
         (case fetchBalance e (tokAddress tokenInfo) symbol decimals address of
            (bal, w2) \<Rightarrow>
              w2 @
              (case queryFilter e (tokAddress tokenInfo) address startBlock currentBlock of
                 None \<Rightarrow> [EventsWarning address]
               | Some events \<Rightarrow>
                   concat (map (\<lambda>s. snd (checkDiscovered e address (tokAddress tokenInfo)
                                         symbol decimals prc bal s))
                             (newSpenders events {})))))"

definition tokenWarnings ::
  "env \<Rightarrow> string list \<Rightarrow> int \<Rightarrow> int \<Rightarrow> tokenInput \<Rightarrow> warning list" where
  "tokenWarnings e addresses startBlock currentBlock tokenInfo =
    (if newContract e (tokAddress tokenInfo)
     then snd (resolveToken e tokenInfo) @
          concat (map (walletWarnings e tokenInfo startBlock currentBlock) addresses)
     else [TokenWarning (tokAddress tokenInfo)])"

text \<open>
  \<open>recordedFor e ti address spender allow r\<close>: the record \<open>r\<close> is the one built for the
  wallet \<open>address\<close>, the token line \<open>ti\<close> and \<open>spender\<close> from the allowance \<open>allow\<close> that
  the chain returned.
\<close>

definition recordedFor ::
  "env \<Rightarrow> tokenInput \<Rightarrow> string \<Rightarrow> string \<Rightarrow> nat \<Rightarrow> approvalRecord \<Rightarrow> bool" where
  "recordedFor e tokenInfo address spender allow r =
    (newContract e (tokAddress tokenInfo) \<and>
     allowanceOf e (tokAddress tokenInfo) address spender = Some allow \<and>
     (case resolveToken e tokenInfo of
        ((symbol, decimals, prc), w1) \<Rightarrow>
          exposureRecord e address (tokAddress tokenInfo) symbol decimals prc
            (fst (fetchBalance e (tokAddress tokenInfo) symbol decimals address)) spender allow
          = Some r))"

text \<open>The price that \<open>resolveToken\<close> gives a token line.\<close>

definition resolvedPrice :: "env \<Rightarrow> tokenInput \<Rightarrow> real option" where
  "resolvedPrice e tokenInfo = snd (snd (fst (resolveToken e tokenInfo)))"

text \<open>The identity of a record.\<close>

definition triple :: "approvalRecord \<Rightarrow> string \<times> string \<times> string" where
  "triple r = (walletAddress r, tokenAddress r, spenderAddress r)"

text \<open>
  \<open>recordable e address tokenInfo spender\<close>: the check of the triple ends with a record, that
  is, the contract is created, the allowance read returns and no \<open>formatUnits\<close> call throws.
\<close>

definition recordable :: "env \<Rightarrow> string \<Rightarrow> tokenInput \<Rightarrow> string \<Rightarrow> bool" where
  "recordable e address tokenInfo spender = (tripleRecords e address tokenInfo spender \<noteq> [])"

text \<open>The spenders the advanced checker finds for a wallet and a token.\<close>

definition discoveredSpenders :: "env \<Rightarrow> tokenInput \<Rightarrow> int \<Rightarrow> int \<Rightarrow> string \<Rightarrow> string list" where
  "discoveredSpenders e tokenInfo startBlock currentBlock address =
    (case queryFilter e (tokAddress tokenInfo) address startBlock currentBlock of
       None \<Rightarrow> []
     | Some events \<Rightarrow> newSpenders events {})"

section \<open>A sample environment\<close>

text \<open>
  A small chain used to run the scripts on concrete inputs: wallet \<open>A\<close> holds 500 units of
  every token; spender \<open>S\<close> is approved for 1000 units, \<open>M\<close> for the maximal amount, \<open>Z\<close>
  for nothing, and the allowance read fails for any other spender; the contract at \<open>X\<close>
  cannot be created; tokens \<open>T\<close> and \<open>W\<close> have the symbols USDT and WETH and no decimals.
\<close>

definition demoEnv :: env where
  "demoEnv =
    \<lparr> newContract = (\<lambda>t. t \<noteq> ''X''),
      symbolDecimals = (\<lambda>t. if t = ''T'' then Some (''USDT'', 0)
                            else if t = ''W'' then Some (''WETH'', 0) else None),
      balanceOf = (\<lambda>t owner. if owner = ''A'' then Some 500 else None),
      allowanceOf = (\<lambda>t owner spender.
                       if spender = ''S'' then Some 1000
                       else if spender = ''M'' then Some MaxUint256
                       else if spender = ''Z'' then Some 0 else None),
      getBlockNumber = Some 100,
      queryFilter = (\<lambda>t owner fromBlock toBlock.
                       if owner = ''A'' then Some [''S'', ''M'', ''S'', ''Z''] else None),
      formatUnits = (\<lambda>v d. if d = 0 then Some (toString v) else None),
      parseFloat = (\<lambda>s. real (parseBigInt s)),
      fmul = (\<lambda>x y. x * y),
      fdiv = (\<lambda>x y. x / y),
      fadd = (\<lambda>x y. x + y),
      toFixed = (\<lambda>x n. toString (nat \<lfloor>x\<rfloor>)),
      numberToString = (\<lambda>x. toString (nat \<lfloor>x\<rfloor>)) \<rparr>"

definition usdtLine :: tokenInput where
  "usdtLine = \<lparr> tokAddress = ''T'', tokPrice = None \<rparr>"

definition wethLine :: tokenInput where
  "wethLine = \<lparr> tokAddress = ''W'', tokPrice = None \<rparr>"

definition brokenLine :: tokenInput where
  "brokenLine = \<lparr> tokAddress = ''X'', tokPrice = None \<rparr>"

text \<open>The same chain with every balance read failing, and the record of a wallet whose
  balance could not be read.\<close>

definition noBalanceEnv :: env where
  "noBalanceEnv = demoEnv \<lparr> balanceOf := (\<lambda>t owner. None) \<rparr>"

definition unreadRecord :: "string \<Rightarrow> string \<Rightarrow> nat \<Rightarrow> approvalRecord" where
  "unreadRecord wallet spender allow =
    \<lparr> walletAddress = wallet, tokenAddress = ''T'', tokenSymbol = ''USDT'',
      spenderAddress = spender,
      allowance = (if allow = MaxUint256 then infinitySymbol else toString allow),
      rawAllowance = toString allow,
      isInfiniteApproval = (allow = MaxUint256),
      balance = ''0'', rawBalance = ''0'', exposedAmount = ''0'', rawExposedAmount = ''0'',
      price = Some 1, exposedValueUSD = Some 0 \<rparr>"

definition demoRecord :: "string \<Rightarrow> string \<Rightarrow> string \<Rightarrow> nat \<Rightarrow> nat \<Rightarrow> real option \<Rightarrow> approvalRecord" where
  "demoRecord tok symbl spender allow exposed prc =
    \<lparr> walletAddress = ''A'', tokenAddress = tok, tokenSymbol = symbl, spenderAddress = spender,
      allowance = (if allow = MaxUint256 then infinitySymbol else toString allow),
      rawAllowance = toString allow,
      isInfiniteApproval = (allow = MaxUint256),
      balance = ''500'', rawBalance = ''500'',
      exposedAmount = toString exposed, rawExposedAmount = toString exposed,
      price = prc, exposedValueUSD = map_option (\<lambda>p. real exposed * p) prc \<rparr>"

text \<open>
  A collection of 101 records for the table: spender \<open>S\<close> with 5 USD exposed, \<open>M\<close> with
  an infinite approval and 9 USD, \<open>N\<close> with an infinite approval on a token without price,
  and 98 times the same record of spender \<open>F\<close> with 1 USD.
\<close>

definition tableRecord :: "string \<Rightarrow> string \<Rightarrow> real option \<Rightarrow> bool \<Rightarrow> approvalRecord" where
  "tableRecord tok spender usd infin =
    \<lparr> walletAddress = ''A'', tokenAddress = tok, tokenSymbol = ''USDT'', spenderAddress = spender,
      allowance = (if infin then infinitySymbol else ''7''),
      rawAllowance = (if infin then toString MaxUint256 else ''7''),
      isInfiniteApproval = infin,
      balance = ''9'', rawBalance = ''9'', exposedAmount = ''7'', rawExposedAmount = ''7'',
      price = map_option (\<lambda>v. 1) usd, exposedValueUSD = usd \<rparr>"

definition tableRecords :: "approvalRecord list" where
  "tableRecords =
     [tableRecord ''T'' ''S'' (Some 5) False, tableRecord ''T'' ''M'' (Some 9) True,
      tableRecord ''W'' ''N'' None True]
     @ replicate 98 (tableRecord ''T'' ''F'' (Some 1) False)"

chapter \<open>Properties\<close>

section \<open>Decimal strings\<close>

lemma digitValue_digitChar: "d < 10 \<Longrightarrow> digitValue (digitChar d) = d"
  by (simp add: digitValue_def digitChar_def)

lemma parseBigInt_snoc: "parseBigInt (s @ [c]) = parseBigInt s * 10 + digitValue c"
  by (simp add: parseBigInt_def)

lemma parseBigInt_toString: "parseBigInt (toString n) = n"
proof (induction n rule: toString.induct)
  case (1 n)
  show ?case
  proof (cases "n < 10")
    case True
    then show ?thesis
      by (subst toString.simps) (simp add: parseBigInt_def digitValue_digitChar)
  next
    case False
    with 1 have "parseBigInt (toString (n div 10)) = n div 10" by simp
    with False show ?thesis
      by (subst toString.simps) (simp add: parseBigInt_snoc digitValue_digitChar)
  qed
qed

lemma toString_inject: "toString a = toString b \<longleftrightarrow> a = b"
  by (metis parseBigInt_toString)

lemma toString_zero: "toString n = ''0'' \<longleftrightarrow> n = 0"
proof
  assume "toString n = ''0''"
  then have "parseBigInt (toString n) = parseBigInt ''0''" by simp
  moreover have "parseBigInt ''0'' = 0" by code_simp
  ultimately show "n = 0" by (simp only: parseBigInt_toString)
next
  have "toString 0 = ''0''" by code_simp
  moreover assume "n = 0"
  ultimately show "toString n = ''0''" by simp
qed

section \<open>What a run leaves in its state\<close>

text \<open>
  The loops of a run only append to \<open>results\<close> and to the warnings and add to the counter,
  so the final state is the concatenation of what each work item contributes. The functions
  \<open>tripleRecords\<close>, \<open>pairWarnings\<close>, \<open>walletRecords\<close> and \<open>tokenWarnings\<close> name these
  contributions; the lemmas of this section show that the loops compute them.
\<close>

subsection \<open>Waves and counters\<close>

lemma concat_batchesFrom: "concat (batchesFrom xs i) = drop i xs"
proof (induction xs i rule: batchesFrom.induct)
  case (1 xs i)
  show ?case
  proof (cases "i < length xs")
    case True
    with 1 have "concat (batchesFrom xs (i + batchSize)) = drop (i + batchSize) xs" by simp
    moreover have "take batchSize (drop i xs) @ drop (i + batchSize) xs = drop i xs"
      by (metis add.commute append_take_drop_id drop_drop)
    ultimately show ?thesis using True by (subst batchesFrom.simps) simp
  next
    case False
    then show ?thesis by (subst batchesFrom.simps) simp
  qed
qed

lemma foldl_foldl_concat: "foldl (foldl f) s xss = foldl f s (concat xss)"
  by (induction xss arbitrary: s) simp_all

lemma foldl_batches: "foldl (foldl f) s (batchesFrom xs 0) = foldl f s xs"
  by (simp add: foldl_foldl_concat concat_batchesFrom)

lemma jsAdd_assoc_Num: "jsAdd (jsAdd c (Num a)) (Num b) = jsAdd c (Num (a + b))"
  by (cases c) simp_all

lemma jsAdd_zero: "jsAdd c (Num 0) = c"
  by (cases c) simp_all

lemma results_spenderTasks:
  "results (foldl (spenderTask e a t sy d p b) st xs) =
     results st @ concat (map (\<lambda>s. fst (checkSpender e a t sy d p b s)) xs)"
  by (induction xs arbitrary: st) (simp_all add: spenderTask_def split: prod.splits)

lemma warnings_spenderTasks:
  "warnings (foldl (spenderTask e a t sy d p b) st xs) =
     warnings st @ concat (map (\<lambda>s. snd (checkSpender e a t sy d p b s)) xs)"
  by (induction xs arbitrary: st) (simp_all add: spenderTask_def split: prod.splits)

lemma completed_spenderTasks:
  "completedTasks (foldl (spenderTask e a t sy d p b) st xs) =
     jsAdd (completedTasks st) (Num (int (length xs)))"
proof (induction xs arbitrary: st)
  case Nil
  show ?case by (cases "completedTasks st") simp_all
next
  case (Cons x xs)
  then show ?case by (simp add: spenderTask_def jsAdd_assoc_Num split: prod.splits)
qed

lemma tripleRecords_failed:
  "\<not> newContract e (tokAddress ti) \<Longrightarrow> tripleRecords e a ti = (\<lambda>s. [])"
  by (rule ext) (simp add: tripleRecords_def)

lemma tripleRecords_resolved:
  "newContract e (tokAddress ti) \<Longrightarrow> resolveToken e ti = ((sy, d, p), w1) \<Longrightarrow>
   fetchBalance e (tokAddress ti) sy d a = (b, w2) \<Longrightarrow>
   tripleRecords e a ti = (\<lambda>s. fst (checkSpender e a (tokAddress ti) sy d p b s))"
  by (rule ext) (simp add: tripleRecords_def)

lemma results_checkToken:
  "results (checkToken e a sps st ti) = results st @ concat (map (tripleRecords e a ti) sps)"
proof (cases "newContract e (tokAddress ti)")
  case False
  then show ?thesis by (simp add: checkToken_def tripleRecords_failed)
next
  case True
  obtain sy d p w1 where r: "resolveToken e ti = ((sy, d, p), w1)"
    by (metis prod.exhaust)
  obtain b w2 where f: "fetchBalance e (tokAddress ti) sy d a = (b, w2)"
    by (metis prod.exhaust)
  show ?thesis
    using True r f
    by (simp add: checkToken_def foldl_batches results_spenderTasks
          tripleRecords_resolved [OF True r f])
qed

lemma completed_checkToken:
  "completedTasks (checkToken e a sps st ti) = jsAdd (completedTasks st) (Num (int (length sps)))"
  by (simp add: checkToken_def  Let_def foldl_batches completed_spenderTasks
        split: prod.splits)

lemma results_checkTokens:
  "results (foldl (checkToken e a sps) st tis) =
     results st @ concat (map (\<lambda>ti. concat (map (tripleRecords e a ti) sps)) tis)"
  by (induction tis arbitrary: st) (simp_all add: results_checkToken)

lemma completed_checkTokens:
  "completedTasks (foldl (checkToken e a sps) st tis) =
     jsAdd (completedTasks st) (Num (int (length tis * length sps)))"
proof (induction tis arbitrary: st)
  case Nil
  show ?case by (cases "completedTasks st") simp_all
next
  case (Cons x xs)
  then show ?case by (simp add: completed_checkToken jsAdd_assoc_Num algebra_simps)
qed

lemma results_checkAddresses:
  "results (foldl (\<lambda>st address. foldl (checkToken e address sps) st tis) st as) =
     results st @ concat (map (\<lambda>a. concat (map (\<lambda>ti. concat (map (tripleRecords e a ti) sps)) tis)) as)"
  by (induction as arbitrary: st) (simp_all add: results_checkTokens)

lemma completed_checkAddresses:
  "completedTasks (foldl (\<lambda>st address. foldl (checkToken e address sps) st tis) st as) =
     jsAdd (completedTasks st) (Num (int (length as * length tis * length sps)))"
proof (induction as arbitrary: st)
  case Nil
  show ?case by (cases "completedTasks st") simp_all
next
  case (Cons x xs)
  then show ?case by (simp add: completed_checkTokens jsAdd_assoc_Num algebra_simps)
qed

lemma tripleWarnings_resolved:
  "resolveToken e ti = ((sy, d, p), w1) \<Longrightarrow>
   fetchBalance e (tokAddress ti) sy d a = (b, w2) \<Longrightarrow>
   tripleWarnings e a ti = (\<lambda>s. snd (checkSpender e a (tokAddress ti) sy d p b s))"
  by (rule ext) (simp add: tripleWarnings_def)

lemma warnings_checkToken:
  "warnings (checkToken e a sps st ti) = warnings st @ pairWarnings e a sps ti"
proof (cases "newContract e (tokAddress ti)")
  case False
  then show ?thesis by (simp add: checkToken_def pairWarnings_def)
next
  case True
  obtain sy d p w1 where r: "resolveToken e ti = ((sy, d, p), w1)"
    by (metis prod.exhaust)
  obtain b w2 where f: "fetchBalance e (tokAddress ti) sy d a = (b, w2)"
    by (metis prod.exhaust)
  show ?thesis
    using True r f
    by (simp add: checkToken_def pairWarnings_def foldl_batches warnings_spenderTasks
          tripleWarnings_resolved [OF r f])
qed

lemma warnings_checkTokens:
  "warnings (foldl (checkToken e a sps) st tis) =
     warnings st @ concat (map (pairWarnings e a sps) tis)"
  by (induction tis arbitrary: st) (simp_all add: warnings_checkToken)

lemma warnings_checkAddresses:
  "warnings (foldl (\<lambda>st address. foldl (checkToken e address sps) st tis) st as) =
     warnings st @ concat (map (\<lambda>a. concat (map (pairWarnings e a sps) tis)) as)"
  by (induction as arbitrary: st) (simp_all add: warnings_checkTokens)

subsection \<open>Records of the earlier basic checker\<close>

lemma fst_plainSpenders:
  "fst (foldl (plainSpender e a t sy d p b) acc xs) =
     fst acc @ concat (map (\<lambda>s. fst (checkSpender e a t sy d p b s)) xs)"
  by (induction xs arbitrary: acc) (simp_all add: plainSpender_def split: prod.splits)

lemma fst_plainToken:
  "fst (plainToken e a sps acc ti) = fst acc @ concat (map (tripleRecords e a ti) sps)"
proof (cases "newContract e (tokAddress ti)")
  case False
  then show ?thesis by (simp add: plainToken_def tripleRecords_failed)
next
  case True
  obtain sy d p w1 where r: "resolveToken e ti = ((sy, d, p), w1)"
    by (metis prod.exhaust)
  obtain b w2 where f: "fetchBalance e (tokAddress ti) sy d a = (b, w2)"
    by (metis prod.exhaust)
  show ?thesis
    using True r f
    by (simp add: plainToken_def fst_plainSpenders tripleRecords_resolved [OF True r f])
qed

lemma fst_plainTokens:
  "fst (foldl (plainToken e a sps) acc tis) =
     fst acc @ concat (map (\<lambda>ti. concat (map (tripleRecords e a ti) sps)) tis)"
  by (induction tis arbitrary: acc) (simp_all add: fst_plainToken)

lemma fst_plainAddresses:
  "fst (foldl (\<lambda>acc address. foldl (plainToken e address sps) acc tis) acc as) =
     fst acc @ concat (map (\<lambda>a. concat (map (\<lambda>ti. concat (map (tripleRecords e a ti) sps)) tis)) as)"
  by (induction as arbitrary: acc) (simp_all add: fst_plainTokens)

subsection \<open>Records, warnings and counter of the advanced checker\<close>

lemma processEvents_newSpenders:
  "processEvents e a t sy d p b events seen =
     (concat (map (\<lambda>s. fst (checkDiscovered e a t sy d p b s)) (newSpenders events seen)),
      concat (map (\<lambda>s. snd (checkDiscovered e a t sy d p b s)) (newSpenders events seen)))"
  by (induction events arbitrary: seen) (simp_all split: prod.splits)

lemma results_addressTasks:
  "results (foldl (addressTask e t sy d p sb cb) st xs) =
     results st @ concat (map (\<lambda>a. results (addressTask e t sy d p sb cb initialState a)) xs)"
  by (induction xs arbitrary: st) (simp_all add: addressTask_def initialState_def split: prod.splits)

lemma warnings_addressTasks:
  "warnings (foldl (addressTask e t sy d p sb cb) st xs) =
     warnings st @ concat (map (\<lambda>a. warnings (addressTask e t sy d p sb cb initialState a)) xs)"
  by (induction xs arbitrary: st) (simp_all add: addressTask_def initialState_def split: prod.splits)

lemma completed_addressTasks:
  "completedTasks (foldl (addressTask e t sy d p sb cb) st xs) =
     jsAdd (completedTasks st) (Num (int (length xs)))"
proof (induction xs arbitrary: st)
  case Nil
  show ?case by (simp add: jsAdd_zero)
next
  case (Cons x xs)
  then show ?case by (simp add: addressTask_def jsAdd_assoc_Num split: prod.splits)
qed

lemma walletRecords_failed:
  "\<not> newContract e (tokAddress ti) \<Longrightarrow> walletRecords e ti sb cb = (\<lambda>a. [])"
  by (rule ext) (simp add: walletRecords_def)

lemma walletRecords_resolved:
  "newContract e (tokAddress ti) \<Longrightarrow> resolveToken e ti = ((sy, d, p), w1) \<Longrightarrow>
   walletRecords e ti sb cb = (\<lambda>a. results (addressTask e (tokAddress ti) sy d p sb cb initialState a))"
  by (rule ext)
     (simp add: walletRecords_def addressTask_def initialState_def processEvents_newSpenders
        split: prod.splits option.splits)

lemma walletWarnings_resolved:
  "resolveToken e ti = ((sy, d, p), w1) \<Longrightarrow>
   walletWarnings e ti sb cb = (\<lambda>a. warnings (addressTask e (tokAddress ti) sy d p sb cb initialState a))"
  by (rule ext)
     (simp add: walletWarnings_def addressTask_def initialState_def processEvents_newSpenders
        split: prod.splits option.splits)

lemma results_findToken:
  "results (findToken e as sb cb st ti) = results st @ concat (map (walletRecords e ti sb cb) as)"
proof (cases "newContract e (tokAddress ti)")
  case False
  then show ?thesis by (simp add: findToken_def walletRecords_failed)
next
  case True
  obtain sy d p w1 where r: "resolveToken e ti = ((sy, d, p), w1)"
    by (metis prod.exhaust)
  show ?thesis
    using True r
    by (simp add: findToken_def foldl_batches results_addressTasks
          walletRecords_resolved [OF True r])
qed

lemma warnings_findToken:
  "warnings (findToken e as sb cb st ti) = warnings st @ tokenWarnings e as sb cb ti"
proof (cases "newContract e (tokAddress ti)")
  case False
  then show ?thesis by (simp add: findToken_def tokenWarnings_def)
next
  case True
  obtain sy d p w1 where r: "resolveToken e ti = ((sy, d, p), w1)"
    by (metis prod.exhaust)
  show ?thesis
    using True r
    by (simp add: findToken_def tokenWarnings_def foldl_batches warnings_addressTasks
          walletWarnings_resolved [OF r])
qed

lemma results_findTokens:
  "results (foldl (findToken e as sb cb) st tis) =
     results st @ concat (map (\<lambda>ti. concat (map (walletRecords e ti sb cb) as)) tis)"
  by (induction tis arbitrary: st) (simp_all add: results_findToken)

lemma warnings_findTokens:
  "warnings (foldl (findToken e as sb cb) st tis) =
     warnings st @ concat (map (tokenWarnings e as sb cb) tis)"
  by (induction tis arbitrary: st) (simp_all add: warnings_findToken)

lemma completed_findToken_ok:
  "newContract e (tokAddress ti) \<Longrightarrow>
   completedTasks (findToken e as sb cb st ti) = jsAdd (completedTasks st) (Num (int (length as)))"
  by (simp add: findToken_def foldl_batches completed_addressTasks split: prod.splits)

lemma completed_findToken:
  assumes "as \<noteq> []" and "completedTasks st = Num (int (k * length as))"
  shows "completedTasks (findToken e as sb cb st ti) = Num (int (Suc k * length as))"
proof (cases "newContract e (tokAddress ti)")
  case True
  then show ?thesis using assms by (simp add: completed_findToken_ok algebra_simps)
next
  case False
  have "int (length as) \<noteq> 0" using assms(1) by simp
  then show ?thesis
    using False assms(2) by (simp add: findToken_def Let_def algebra_simps)
qed

lemma completed_findTokens:
  assumes "as \<noteq> []"
  shows "completedTasks st = Num (int (k * length as)) \<Longrightarrow>
    completedTasks (foldl (findToken e as sb cb) st tis) = Num (int ((k + length tis) * length as))"
proof (induction tis arbitrary: st k)
  case Nil
  then show ?case by simp
next
  case (Cons ti tis)
  have "completedTasks (findToken e as sb cb st ti) = Num (int (Suc k * length as))"
    using assms Cons.prems by (rule completed_findToken)
  from Cons.IH [OF this] show ?case by simp
qed

subsection \<open>Where a record comes from\<close>

lemma checkSpender_record:
  "r \<in> set (fst (checkSpender e a t sy d p b s)) \<longleftrightarrow>
     (\<exists>allow. allowanceOf e t a s = Some allow \<and> exposureRecord e a t sy d p b s allow = Some r)"
  by (auto simp: checkSpender_def split: option.splits)

lemma checkDiscovered_record:
  "r \<in> set (fst (checkDiscovered e a t sy d p b s)) \<longleftrightarrow>
     (\<exists>allow. allowanceOf e t a s = Some allow \<and> allow \<noteq> 0 \<and>
        exposureRecord e a t sy d p b s allow = Some r)"
proof (cases "allowanceOf e t a s")
  case None
  then show ?thesis by (simp add: checkDiscovered_def)
next
  case (Some allow)
  show ?thesis
    by (cases "exposureRecord e a t sy d p b s allow")
       (auto simp: Some checkDiscovered_def toString_zero)
qed

lemma tripleRecords_recordedFor:
  "r \<in> set (tripleRecords e a ti s) \<longleftrightarrow> (\<exists>allow. recordedFor e ti a s allow r)"
proof -
  obtain sy d p w1 where rt: "resolveToken e ti = ((sy, d, p), w1)"
    by (metis prod.exhaust)
  obtain b w2 where fb: "fetchBalance e (tokAddress ti) sy d a = (b, w2)"
    by (metis prod.exhaust)
  have 1: "tripleRecords e a ti s =
      (if newContract e (tokAddress ti) then fst (checkSpender e a (tokAddress ti) sy d p b s) else [])"
    by (simp add: tripleRecords_def rt fb)
  have 2: "recordedFor e ti a s allow r \<longleftrightarrow>
      newContract e (tokAddress ti) \<and> allowanceOf e (tokAddress ti) a s = Some allow \<and>
      exposureRecord e a (tokAddress ti) sy d p b s allow = Some r" for allow
    by (simp add: recordedFor_def rt fb)
  show ?thesis
    unfolding 1 2 using checkSpender_record [of r e a "tokAddress ti" sy d p b s]
    by (cases "newContract e (tokAddress ti)") simp_all
qed

lemma set_newSpenders: "set (newSpenders events seen) = set events - seen"
  by (induction events arbitrary: seen) auto

lemma walletRecords_recordedFor:
  "r \<in> set (walletRecords e ti sb cb a) \<longleftrightarrow>
     (\<exists>events s allow. queryFilter e (tokAddress ti) a sb cb = Some events \<and> s \<in> set events \<and>
        allow \<noteq> 0 \<and> recordedFor e ti a s allow r)"
proof -
  obtain sy d p w1 where rt: "resolveToken e ti = ((sy, d, p), w1)"
    by (metis prod.exhaust)
  obtain b w2 where fb: "fetchBalance e (tokAddress ti) sy d a = (b, w2)"
    by (metis prod.exhaust)
  have 2: "recordedFor e ti a s allow r \<longleftrightarrow>
      newContract e (tokAddress ti) \<and> allowanceOf e (tokAddress ti) a s = Some allow \<and>
      exposureRecord e a (tokAddress ti) sy d p b s allow = Some r" for allow s
    by (simp add: recordedFor_def rt fb)
  show ?thesis
  proof (cases "newContract e (tokAddress ti)")
    case False
    then show ?thesis by (simp add: walletRecords_def 2)
  next
    case True
    show ?thesis
    proof (cases "queryFilter e (tokAddress ti) a sb cb")
      case None
      then show ?thesis by (simp add: walletRecords_def rt fb True)
    next
      case (Some events)
      have "walletRecords e ti sb cb a =
          concat (map (\<lambda>s. fst (checkDiscovered e a (tokAddress ti) sy d p b s)) (newSpenders events {}))"
        by (simp add: walletRecords_def rt fb True Some)
      then have "r \<in> set (walletRecords e ti sb cb a) \<longleftrightarrow>
          (\<exists>s\<in>set events. r \<in> set (fst (checkDiscovered e a (tokAddress ti) sy d p b s)))"
        by (simp add: set_newSpenders)
      also have "\<dots> \<longleftrightarrow> (\<exists>s\<in>set events. \<exists>allow. allow \<noteq> 0 \<and> recordedFor e ti a s allow r)"
        unfolding 2 checkDiscovered_record using True by blast
      finally show ?thesis using Some by auto
    qed
  qed
qed

lemma basic_provenance:
  assumes "checkApprovals e addresses tokens spenders = Done st" and "r \<in> set (results st)"
  shows "\<exists>a ti s allow. a \<in> set addresses \<and> ti \<in> set tokens \<and> s \<in> set spenders \<and>
           recordedFor e ti a s allow r"
proof -
  from assms(1) have "st = foldl (\<lambda>st address. foldl (checkToken e address spenders) st tokens)
                  initialState addresses"
    by (simp add: checkApprovals_def split: if_splits)
  then have "results st =
      concat (map (\<lambda>a. concat (map (\<lambda>ti. concat (map (tripleRecords e a ti) spenders)) tokens)) addresses)"
    by (simp add: results_checkAddresses initialState_def)
  with assms(2) obtain a ti s where "a \<in> set addresses" "ti \<in> set tokens" "s \<in> set spenders"
      "r \<in> set (tripleRecords e a ti s)"
    by auto
  then show ?thesis by (auto simp: tripleRecords_recordedFor)
qed

lemma plain_provenance:
  assumes "checkApprovalsPlain e addresses tokens spenders = Done (rs, ws)" and "r \<in> set rs"
  shows "\<exists>a ti s allow. a \<in> set addresses \<and> ti \<in> set tokens \<and> s \<in> set spenders \<and>
           recordedFor e ti a s allow r"
proof -
  from assms(1) have "(rs, ws) = foldl (\<lambda>acc address. foldl (plainToken e address spenders) acc tokens)
                  ([], []) addresses"
    by (simp add: checkApprovalsPlain_def split: if_splits)
  then have "rs = fst (foldl (\<lambda>acc address. foldl (plainToken e address spenders) acc tokens)
                  ([], []) addresses)"
    by (metis fst_conv)
  then have "rs =
      concat (map (\<lambda>a. concat (map (\<lambda>ti. concat (map (tripleRecords e a ti) spenders)) tokens)) addresses)"
    by (simp add: fst_plainAddresses)
  with assms(2) obtain a ti s where "a \<in> set addresses" "ti \<in> set tokens" "s \<in> set spenders"
      "r \<in> set (tripleRecords e a ti s)"
    by auto
  then show ?thesis by (auto simp: tripleRecords_recordedFor)
qed

lemma advanced_results:
  assumes "findAndCheckApprovals e addresses tokens lookbackBlocks = Done st"
  shows "\<exists>currentBlock. getBlockNumber e = Some currentBlock \<and>
     results st = concat (map (\<lambda>ti. concat (map
        (walletRecords e ti (max 0 (currentBlock - lookbackBlocks)) currentBlock) addresses)) tokens)"
  using assms
  by (auto simp: findAndCheckApprovals_def Let_def results_findTokens initialState_def
        split: option.splits)

lemma advanced_provenance:
  assumes "findAndCheckApprovals e addresses tokens lookbackBlocks = Done st"
    and "r \<in> set (results st)"
  shows "\<exists>a ti s allow. a \<in> set addresses \<and> ti \<in> set tokens \<and> allow \<noteq> 0 \<and>
           recordedFor e ti a s allow r"
proof -
  from advanced_results [OF assms(1)] assms(2)
  obtain cb a ti where "a \<in> set addresses" "ti \<in> set tokens"
     "r \<in> set (walletRecords e ti (max 0 (cb - lookbackBlocks)) cb a)"
    by auto
  then show ?thesis by (auto simp: walletRecords_recordedFor)
qed

text \<open>What a record says about the values it was built from.\<close>

lemma exposureRecord_fields:
  assumes "exposureRecord e a t sy d p b s allow = Some r"
  shows "walletAddress r = a" "tokenAddress r = t" "tokenSymbol r = sy" "spenderAddress r = s"
    "rawAllowance r = toString allow" "rawBalance r = toString b" "price r = p"
    "isInfiniteApproval r \<longleftrightarrow> allow = MaxUint256"
    "rawExposedAmount r = toString (if allow = MaxUint256 then b else min allow b)"
    "allowance r = (if allow = MaxUint256 then infinitySymbol else the (formatUnits e allow d))"
    "allow \<noteq> MaxUint256 \<Longrightarrow> formatUnits e allow d = Some (allowance r)"
    "formatUnits e b d = Some (balance r)"
    "formatUnits e (if allow = MaxUint256 then b else min allow b) d = Some (exposedAmount r)"
    "exposedValueUSD r = map_option (\<lambda>v. fmul e (parseFloat e (exposedAmount r)) v) p"
  using assms
  by (auto simp: exposureRecord_def Let_def toString_inject min_def
        split: option.splits if_splits)

section \<open>Runs on the sample environment\<close>

lemma toString_500: "toString 500 = ''500''" by code_simp
lemma toString_1000: "toString 1000 = ''1000''" by code_simp
lemma parse_500: "parseBigInt ''500'' = 500" by code_simp
lemma parse_1000: "parseBigInt ''1000'' = 1000" by code_simp
lemma max_ne_1000: "toString 1000 \<noteq> toString MaxUint256" by (simp add: toString_inject MaxUint256_def)
lemma max_ne_0: "toString 0 \<noteq> toString MaxUint256" by (simp add: toString_inject MaxUint256_def)

lemma demo_resolve_usdt: "resolveToken demoEnv usdtLine = ((''USDT'', 0, Some 1), [])"
  by (simp add: resolveToken_def demoEnv_def usdtLine_def stablecoins_def)

lemma demo_balance: "fetchBalance demoEnv t sy 0 ''A'' = (500, [])"
  by (simp add: fetchBalance_def demoEnv_def)

lemma demo_exposure:
  "exposureRecord demoEnv ''A'' t sy 0 p 500 s allow =
     Some (demoRecord t sy s allow (if allow = MaxUint256 then 500 else min allow 500) p)"
proof -
  have f: "formatUnits demoEnv v 0 = Some (toString v)" for v
    by (simp add: demoEnv_def)
  have u: "fmul demoEnv (parseFloat demoEnv (toString v)) x = real v * x" for v x
    by (simp add: demoEnv_def parseBigInt_toString)
  show ?thesis
    by (cases p)
       (simp_all add: exposureRecord_def Let_def f u toString_inject demoRecord_def toString_500
          min_def)
qed

lemma demo_allowances:
  "allowanceOf demoEnv t a ''S'' = Some 1000"
  "allowanceOf demoEnv t a ''M'' = Some MaxUint256"
  "allowanceOf demoEnv t a ''Z'' = Some 0"
  "allowanceOf demoEnv t a ''Q'' = None"
  by (simp_all add: demoEnv_def)

lemma demo_check_S:
  "checkSpender demoEnv ''A'' ''T'' ''USDT'' 0 (Some 1) 500 ''S'' =
     ([demoRecord ''T'' ''USDT'' ''S'' 1000 500 (Some 1)], [])"
  by (simp add: checkSpender_def demo_exposure demo_allowances MaxUint256_def)

lemma demo_check_M:
  "checkSpender demoEnv ''A'' ''T'' ''USDT'' 0 (Some 1) 500 ''M'' =
     ([demoRecord ''T'' ''USDT'' ''M'' MaxUint256 500 (Some 1)], [])"
  by (simp add: checkSpender_def demo_exposure demo_allowances)

lemma demo_check_Z:
  "checkSpender demoEnv ''A'' ''T'' ''USDT'' 0 (Some 1) 500 ''Z'' =
     ([demoRecord ''T'' ''USDT'' ''Z'' 0 0 (Some 1)], [])"
  by (simp add: checkSpender_def demo_exposure demo_allowances MaxUint256_def)

lemma demo_check_Q:
  "checkSpender demoEnv ''A'' ''T'' ''USDT'' 0 (Some 1) 500 ''Q'' =
     ([], [AllowanceWarning ''A'' ''T'' ''Q''])"
  by (simp add: checkSpender_def demo_allowances)

lemma demo_discovered_S:
  "checkDiscovered demoEnv ''A'' ''T'' ''USDT'' 0 (Some 1) 500 ''S'' =
     ([demoRecord ''T'' ''USDT'' ''S'' 1000 500 (Some 1)], [])"
  by (simp add: checkDiscovered_def demo_exposure demo_allowances toString_zero MaxUint256_def)

lemma demo_discovered_M:
  "checkDiscovered demoEnv ''A'' ''T'' ''USDT'' 0 (Some 1) 500 ''M'' =
     ([demoRecord ''T'' ''USDT'' ''M'' MaxUint256 500 (Some 1)], [])"
  by (simp add: checkDiscovered_def demo_exposure demo_allowances toString_zero)
     (simp add: MaxUint256_def)

lemma demo_discovered_Z:
  "checkDiscovered demoEnv ''A'' ''T'' ''USDT'' 0 (Some 1) 500 ''Z'' = ([], [])"
  by (simp add: checkDiscovered_def demo_allowances toString_zero)

lemma demo_batches: "batchesFrom [''S'', ''M''] 0 = [[''S'', ''M'']]"
  by (simp add: batchesFrom.simps batchSize_def)

lemma demo_basic_run:
  "checkApprovals demoEnv [''A''] [usdtLine] [''S'', ''M''] =
     Done \<lparr> results = [demoRecord ''T'' ''USDT'' ''S'' 1000 500 (Some 1),
                        demoRecord ''T'' ''USDT'' ''M'' MaxUint256 500 (Some 1)],
            completedTasks = Num 2, warnings = [] \<rparr>"
proof -
  have t: "tokAddress usdtLine = ''T''" by (simp add: usdtLine_def)
  have n: "newContract demoEnv ''T''" by (simp add: demoEnv_def)
  show ?thesis
    by (simp add: checkApprovals_def checkToken_def t n demo_resolve_usdt demo_balance
          demo_batches spenderTask_def demo_check_S demo_check_M initialState_def Let_def)
qed

lemma demo_batches3: "batchesFrom [''S'', ''Z'', ''Q''] 0 = [[''S'', ''Z'', ''Q'']]"
  by (simp add: batchesFrom.simps batchSize_def)

lemma demo_batches1: "batchesFrom [x] 0 = [[x]]"
  by (simp add: batchesFrom.simps batchSize_def)

lemma demo_basic_run_zero:
  "checkApprovals demoEnv [''A''] [usdtLine] [''S'', ''Z'', ''Q''] =
     Done \<lparr> results = [demoRecord ''T'' ''USDT'' ''S'' 1000 500 (Some 1),
                        demoRecord ''T'' ''USDT'' ''Z'' 0 0 (Some 1)],
            completedTasks = Num 3, warnings = [AllowanceWarning ''A'' ''T'' ''Q''] \<rparr>"
proof -
  have t: "tokAddress usdtLine = ''T''" by (simp add: usdtLine_def)
  have n: "newContract demoEnv ''T''" by (simp add: demoEnv_def)
  show ?thesis
    by (simp add: checkApprovals_def checkToken_def t n demo_resolve_usdt demo_balance
          demo_batches3 spenderTask_def demo_check_S demo_check_Z demo_check_Q
          initialState_def Let_def)
qed

lemma demo_basic_run_failed_read:
  "checkApprovals demoEnv [''A''] [usdtLine] [''Q''] =
     Done \<lparr> results = [], completedTasks = Num 1,
            warnings = [AllowanceWarning ''A'' ''T'' ''Q''] \<rparr>"
proof -
  have t: "tokAddress usdtLine = ''T''" by (simp add: usdtLine_def)
  have n: "newContract demoEnv ''T''" by (simp add: demoEnv_def)
  show ?thesis
    by (simp add: checkApprovals_def checkToken_def t n demo_resolve_usdt demo_balance
          demo_batches1 spenderTask_def demo_check_Q initialState_def Let_def)
qed

lemma demo_advanced_run:
  "findAndCheckApprovals demoEnv [''A''] [usdtLine] 50 =
     Done \<lparr> results = [demoRecord ''T'' ''USDT'' ''S'' 1000 500 (Some 1),
                        demoRecord ''T'' ''USDT'' ''M'' MaxUint256 500 (Some 1)],
            completedTasks = Num 1, warnings = [] \<rparr>"
proof -
  have t: "tokAddress usdtLine = ''T''" by (simp add: usdtLine_def)
  have n: "newContract demoEnv ''T''" by (simp add: demoEnv_def)
  have g: "getBlockNumber demoEnv = Some 100" by (simp add: demoEnv_def)
  have q: "queryFilter demoEnv ''T'' ''A'' 50 100 = Some [''S'', ''M'', ''S'', ''Z'']"
    by (simp add: demoEnv_def)
  show ?thesis
    by (simp add: findAndCheckApprovals_def findToken_def g t n q demo_resolve_usdt demo_balance
          demo_batches1 addressTask_def demo_discovered_S demo_discovered_M demo_discovered_Z
          initialState_def Let_def)
qed

section \<open>Exposure of a record\<close>

lemma recordedFor_exposure:
  assumes "recordedFor e ti a s allow r"
  shows "\<exists>sy d p b. exposureRecord e a (tokAddress ti) sy d p b s allow = Some r \<and>
           p = snd (snd (fst (resolveToken e ti)))"
proof -
  obtain sy d p w1 where rt: "resolveToken e ti = ((sy, d, p), w1)"
    by (metis prod.exhaust)
  with assms show ?thesis by (auto simp: recordedFor_def)
qed

lemma run_records_built:
  assumes "checkApprovals e addresses tokens spenders = Done st \<and> rs = results st
         \<or> checkApprovalsPlain e addresses tokens spenders = Done (rs, ws)
         \<or> findAndCheckApprovals e addresses tokens lookbackBlocks = Done st \<and> rs = results st"
    and "r \<in> set rs"
  shows "\<exists>a ti s allow. a \<in> set addresses \<and> ti \<in> set tokens \<and> recordedFor e ti a s allow r"
  using assms basic_provenance [of e addresses tokens spenders st r]
    plain_provenance [of e addresses tokens spenders rs ws r]
    advanced_provenance [of e addresses tokens lookbackBlocks st r]
  by blast

text \<open>
  C1. In every record of a run of any of the three scripts, the raw exposed amount is the
  smaller of raw allowance and raw balance when the approval is not infinite, and the raw
  balance when it is; so it never exceeds the raw balance. The raw fields are the decimal
  strings of the amounts, read back here with \<open>parseBigInt\<close>.
\<close>

theorem exposed_amount_min_or_balance:
  assumes "checkApprovals e addresses tokens spenders = Done st \<and> rs = results st
         \<or> checkApprovalsPlain e addresses tokens spenders = Done (rs, ws)
         \<or> findAndCheckApprovals e addresses tokens lookbackBlocks = Done st \<and> rs = results st"
    and "r \<in> set rs"
  shows "(\<not> isInfiniteApproval r \<longrightarrow>
            parseBigInt (rawExposedAmount r) =
              min (parseBigInt (rawAllowance r)) (parseBigInt (rawBalance r)))
       \<and> (isInfiniteApproval r \<longrightarrow> parseBigInt (rawExposedAmount r) = parseBigInt (rawBalance r))
       \<and> parseBigInt (rawExposedAmount r) \<le> parseBigInt (rawBalance r)"
proof -
  from run_records_built [OF assms] obtain a ti s allow where "recordedFor e ti a s allow r"
    by blast
  from recordedFor_exposure [OF this] obtain sy d p b
    where ex: "exposureRecord e a (tokAddress ti) sy d p b s allow = Some r"
    by blast
  note f = exposureRecord_fields [OF ex]
  show ?thesis
    by (simp add: f(5,6,8,9) parseBigInt_toString)
qed

theorem exposed_amount_min_or_balance_witness:
  "checkApprovals demoEnv [''A''] [usdtLine] [''S'', ''M''] =
     Done \<lparr> results = [demoRecord ''T'' ''USDT'' ''S'' 1000 500 (Some 1),
                        demoRecord ''T'' ''USDT'' ''M'' MaxUint256 500 (Some 1)],
            completedTasks = Num 2, warnings = [] \<rparr>
   \<and> \<not> isInfiniteApproval (demoRecord ''T'' ''USDT'' ''S'' 1000 500 (Some 1))
   \<and> rawAllowance (demoRecord ''T'' ''USDT'' ''S'' 1000 500 (Some 1)) = ''1000''
   \<and> rawBalance (demoRecord ''T'' ''USDT'' ''S'' 1000 500 (Some 1)) = ''500''
   \<and> parseBigInt (rawExposedAmount (demoRecord ''T'' ''USDT'' ''S'' 1000 500 (Some 1))) = 500
   \<and> parseBigInt (rawExposedAmount (demoRecord ''T'' ''USDT'' ''S'' 1000 500 (Some 1)))
       \<le> parseBigInt (rawBalance (demoRecord ''T'' ''USDT'' ''S'' 1000 500 (Some 1)))"
proof -
  let ?r = "demoRecord ''T'' ''USDT'' ''S'' 1000 500 (Some 1)"
  let ?st = "\<lparr> results = [?r, demoRecord ''T'' ''USDT'' ''M'' MaxUint256 500 (Some 1)],
            completedTasks = Num 2, warnings = [] \<rparr>"
  have run: "checkApprovals demoEnv [''A''] [usdtLine] [''S'', ''M''] = Done ?st"
    by (rule demo_basic_run)
  have mem: "?r \<in> set (results ?st)" by simp
  have fin: "\<not> isInfiniteApproval ?r" by (simp add: demoRecord_def MaxUint256_def)
  have raw: "rawAllowance ?r = ''1000''" "rawBalance ?r = ''500''"
    by (simp_all add: demoRecord_def toString_1000)
  from exposed_amount_min_or_balance [of demoEnv "[''A'']" "[usdtLine]" "[''S'', ''M'']" ?st
      "results ?st" "[]" 0 ?r] run mem
  have "(\<not> isInfiniteApproval ?r \<longrightarrow>
            parseBigInt (rawExposedAmount ?r) =
              min (parseBigInt (rawAllowance ?r)) (parseBigInt (rawBalance ?r)))
       \<and> parseBigInt (rawExposedAmount ?r) \<le> parseBigInt (rawBalance ?r)"
    by blast
  with fin raw run show ?thesis by (simp add: parse_500 parse_1000)
qed

section \<open>Infinite approvals, prices and the empty spender list\<close>

lemma toString_digits: "c \<in> set (toString n) \<Longrightarrow> (of_char c :: nat) < 58"
proof (induction n rule: toString.induct)
  case (1 n)
  show ?case
  proof (cases "n < 10")
    case True
    with "1.prems" show ?thesis
      by (subst (asm) toString.simps) (simp add: digitChar_def)
  next
    case False
    from "1.prems" have "c \<in> set (toString (n div 10)) \<or> c = digitChar (n mod 10)"
      by (subst (asm) toString.simps) (use False in auto)
    then show ?thesis
    proof
      assume "c \<in> set (toString (n div 10))"
      with False "1.IH" show ?thesis by simp
    next
      assume "c = digitChar (n mod 10)"
      moreover have "n mod 10 < 10" by simp
      ultimately show ?thesis by (simp add: digitChar_def)
    qed
  qed
qed

lemma infinitySymbol_not_decimal: "toString n \<noteq> infinitySymbol"
proof
  assume "toString n = infinitySymbol"
  then have "char_of (226::nat) \<in> set (toString n)" by (simp add: infinitySymbol_def)
  from toString_digits [OF this] show False by simp
qed

text \<open>
  C2. A record of a run is flagged infinite exactly when its raw allowance is
  \<open>2^256 - 1\<close>; a smaller allowance, \<open>2^255\<close> for one, is not. An infinite allowance is
  shown as the infinity sign, which is not the decimal string of any number; any other
  allowance is shown as \<open>formatUnits\<close> renders it.
\<close>

theorem infinite_iff_max_uint256:
  assumes "checkApprovals e addresses tokens spenders = Done st \<and> rs = results st
         \<or> checkApprovalsPlain e addresses tokens spenders = Done (rs, ws)
         \<or> findAndCheckApprovals e addresses tokens lookbackBlocks = Done st \<and> rs = results st"
    and "r \<in> set rs"
  shows "(isInfiniteApproval r \<longleftrightarrow> parseBigInt (rawAllowance r) = 2 ^ 256 - 1)
       \<and> (parseBigInt (rawAllowance r) = 2 ^ 255 \<longrightarrow> \<not> isInfiniteApproval r)
       \<and> rawAllowance r = toString (parseBigInt (rawAllowance r))
       \<and> (isInfiniteApproval r \<longrightarrow> allowance r = infinitySymbol)
       \<and> (\<not> isInfiniteApproval r \<longrightarrow>
            (\<exists>decimals. formatUnits e (parseBigInt (rawAllowance r)) decimals = Some (allowance r)))
       \<and> (\<forall>n. toString n \<noteq> infinitySymbol)"
proof -
  from run_records_built [OF assms] obtain a ti s allow where "recordedFor e ti a s allow r"
    by blast
  from recordedFor_exposure [OF this] obtain sy d p b
    where ex: "exposureRecord e a (tokAddress ti) sy d p b s allow = Some r"
    by blast
  note f = exposureRecord_fields [OF ex]
  have 1: "isInfiniteApproval r \<longleftrightarrow> parseBigInt (rawAllowance r) = 2 ^ 256 - 1"
    by (simp add: f(5,8) parseBigInt_toString MaxUint256_def)
  have 2: "parseBigInt (rawAllowance r) = 2 ^ 255 \<longrightarrow> \<not> isInfiniteApproval r"
    unfolding 1 by simp
  have 3: "rawAllowance r = toString (parseBigInt (rawAllowance r))"
    by (simp add: f(5) parseBigInt_toString)
  have 4: "isInfiniteApproval r \<longrightarrow> allowance r = infinitySymbol"
    by (simp add: f(8,10))
  have 5: "\<not> isInfiniteApproval r \<longrightarrow>
            (\<exists>decimals. formatUnits e (parseBigInt (rawAllowance r)) decimals = Some (allowance r))"
    using f(11) by (auto simp: f(5,8) parseBigInt_toString)
  from 1 2 3 4 5 infinitySymbol_not_decimal show ?thesis by blast
qed

theorem infinite_iff_max_uint256_witness:
  "checkApprovals demoEnv [''A''] [usdtLine] [''S'', ''M''] =
     Done \<lparr> results = [demoRecord ''T'' ''USDT'' ''S'' 1000 500 (Some 1),
                        demoRecord ''T'' ''USDT'' ''M'' MaxUint256 500 (Some 1)],
            completedTasks = Num 2, warnings = [] \<rparr>
   \<and> isInfiniteApproval (demoRecord ''T'' ''USDT'' ''M'' MaxUint256 500 (Some 1))
   \<and> parseBigInt (rawAllowance (demoRecord ''T'' ''USDT'' ''M'' MaxUint256 500 (Some 1))) = 2 ^ 256 - 1
   \<and> allowance (demoRecord ''T'' ''USDT'' ''M'' MaxUint256 500 (Some 1)) = infinitySymbol"
proof -
  let ?r = "demoRecord ''T'' ''USDT'' ''M'' MaxUint256 500 (Some 1)"
  let ?st = "\<lparr> results = [demoRecord ''T'' ''USDT'' ''S'' 1000 500 (Some 1), ?r],
            completedTasks = Num 2, warnings = [] \<rparr>"
  have run: "checkApprovals demoEnv [''A''] [usdtLine] [''S'', ''M''] = Done ?st"
    by (rule demo_basic_run)
  have mem: "?r \<in> set (results ?st)" by simp
  have inf: "isInfiniteApproval ?r" by (simp add: demoRecord_def)
  from infinite_iff_max_uint256 [of demoEnv "[''A'']" "[usdtLine]" "[''S'', ''M'']" ?st
      "results ?st" "[]" 0 ?r] run mem
  have "(isInfiniteApproval ?r \<longleftrightarrow> parseBigInt (rawAllowance ?r) = 2 ^ 256 - 1)
       \<and> (isInfiniteApproval ?r \<longrightarrow> allowance ?r = infinitySymbol)"
    by blast
  with inf run show ?thesis by simp
qed

lemma resolvedPrice_order:
  "resolvedPrice e ti =
     (case tokPrice ti of
        Some p \<Rightarrow> Some p
      | None \<Rightarrow>
         (case symbolDecimals e (tokAddress ti) of
            Some (symbol, decimals) \<Rightarrow>
              if symbol \<in> {''USDT'', ''USDC'', ''DAI'', ''BUSD'', ''TUSD'', ''USDK'', ''GUSD''}
              then Some 1 else None
          | None \<Rightarrow> None))"
  by (simp add: resolvedPrice_def resolveToken_def stablecoins_def
        split: option.splits prod.splits)

lemma recordedFor_price:
  assumes "recordedFor e ti a s allow r"
  shows "tokenAddress r = tokAddress ti" "price r = resolvedPrice e ti"
    "exposedValueUSD r = map_option (\<lambda>v. fmul e (parseFloat e (exposedAmount r)) v) (price r)"
proof -
  from recordedFor_exposure [OF assms] obtain sy d p b
    where ex: "exposureRecord e a (tokAddress ti) sy d p b s allow = Some r"
      and p: "p = snd (snd (fst (resolveToken e ti)))"
    by blast
  note f = exposureRecord_fields [OF ex]
  show "tokenAddress r = tokAddress ti" by (rule f(2))
  show "price r = resolvedPrice e ti" by (simp add: f(7) p resolvedPrice_def)
  show "exposedValueUSD r = map_option (\<lambda>v. fmul e (parseFloat e (exposedAmount r)) v) (price r)"
    by (simp add: f(14) f(7))
qed

text \<open>
  C8. The price of a token is the caller's price when the token line has one; otherwise 1
  when the symbol read from the contract is one of the seven stablecoin symbols; otherwise
  none. Every record of a run carries the price resolved for its token line, and its USD
  value is missing exactly when that price is missing.
\<close>

theorem price_resolution_order:
  "resolvedPrice e ti =
     (case tokPrice ti of
        Some p \<Rightarrow> Some p
      | None \<Rightarrow>
         (case symbolDecimals e (tokAddress ti) of
            Some (symbol, decimals) \<Rightarrow>
              if symbol \<in> {''USDT'', ''USDC'', ''DAI'', ''BUSD'', ''TUSD'', ''USDK'', ''GUSD''}
              then Some 1 else None
          | None \<Rightarrow> None))
   \<and> ((checkApprovals e addresses tokens spenders = Done st \<and> rs = results st
         \<or> checkApprovalsPlain e addresses tokens spenders = Done (rs, ws)
         \<or> findAndCheckApprovals e addresses tokens lookbackBlocks = Done st \<and> rs = results st)
        \<longrightarrow> r \<in> set rs \<longrightarrow>
          (\<exists>tokenInfo \<in> set tokens.
              tokenAddress r = tokAddress tokenInfo \<and> price r = resolvedPrice e tokenInfo)
          \<and> (exposedValueUSD r = None \<longleftrightarrow> price r = None)
          \<and> exposedValueUSD r =
              map_option (\<lambda>p. fmul e (parseFloat e (exposedAmount r)) p) (price r))"
proof (intro conjI impI)
  show "resolvedPrice e ti =
     (case tokPrice ti of
        Some p \<Rightarrow> Some p
      | None \<Rightarrow>
         (case symbolDecimals e (tokAddress ti) of
            Some (symbol, decimals) \<Rightarrow>
              if symbol \<in> {''USDT'', ''USDC'', ''DAI'', ''BUSD'', ''TUSD'', ''USDK'', ''GUSD''}
              then Some 1 else None
          | None \<Rightarrow> None))"
    by (rule resolvedPrice_order)
next
  assume run: "checkApprovals e addresses tokens spenders = Done st \<and> rs = results st
         \<or> checkApprovalsPlain e addresses tokens spenders = Done (rs, ws)
         \<or> findAndCheckApprovals e addresses tokens lookbackBlocks = Done st \<and> rs = results st"
    and mem: "r \<in> set rs"
  from run_records_built [OF run mem] obtain a tokenInfo s allow
    where t: "tokenInfo \<in> set tokens" and rf: "recordedFor e tokenInfo a s allow r"
    by blast
  note f = recordedFor_price [OF rf]
  show "\<exists>tokenInfo \<in> set tokens.
              tokenAddress r = tokAddress tokenInfo \<and> price r = resolvedPrice e tokenInfo"
    using t f(1,2) by blast
  show "exposedValueUSD r = None \<longleftrightarrow> price r = None" by (simp add: f(3))
  show "exposedValueUSD r = map_option (\<lambda>p. fmul e (parseFloat e (exposedAmount r)) p) (price r)"
    by (rule f(3))
qed

lemma demo_resolve_weth: "resolveToken demoEnv wethLine = ((''WETH'', 0, None), [])"
  by (simp add: resolveToken_def demoEnv_def wethLine_def stablecoins_def)

theorem price_resolution_order_witness:
  "resolvedPrice demoEnv usdtLine = Some 1
   \<and> resolvedPrice demoEnv wethLine = None
   \<and> resolvedPrice demoEnv \<lparr> tokAddress = ''W'', tokPrice = Some 2500 \<rparr> = Some 2500
   \<and> checkApprovals demoEnv [''A''] [usdtLine] [''S'', ''M''] =
     Done \<lparr> results = [demoRecord ''T'' ''USDT'' ''S'' 1000 500 (Some 1),
                        demoRecord ''T'' ''USDT'' ''M'' MaxUint256 500 (Some 1)],
            completedTasks = Num 2, warnings = [] \<rparr>
   \<and> price (demoRecord ''T'' ''USDT'' ''S'' 1000 500 (Some 1)) = Some 1
   \<and> exposedValueUSD (demoRecord ''T'' ''USDT'' ''S'' 1000 500 (Some 1)) = Some 500"
proof -
  let ?r = "demoRecord ''T'' ''USDT'' ''S'' 1000 500 (Some 1)"
  let ?st = "\<lparr> results = [?r, demoRecord ''T'' ''USDT'' ''M'' MaxUint256 500 (Some 1)],
            completedTasks = Num 2, warnings = [] \<rparr>"
  have run: "checkApprovals demoEnv [''A''] [usdtLine] [''S'', ''M''] = Done ?st"
    by (rule demo_basic_run)
  have mem: "?r \<in> set (results ?st)" by simp
  note t = price_resolution_order [of demoEnv _ "[''A'']" "[usdtLine]" "[''S'', ''M'']" ?st
      "results ?st" "[]" 0 ?r]
  have 1: "resolvedPrice demoEnv usdtLine = Some 1"
    using t [of usdtLine] by (simp add: usdtLine_def demoEnv_def)
  have 2: "resolvedPrice demoEnv wethLine = None"
    using t [of wethLine] by (simp add: wethLine_def demoEnv_def)
  have 3: "resolvedPrice demoEnv \<lparr> tokAddress = ''W'', tokPrice = Some 2500 \<rparr> = Some 2500"
    using t [of "\<lparr> tokAddress = ''W'', tokPrice = Some 2500 \<rparr>"] by simp
  from t [of usdtLine] run mem
  have "exposedValueUSD ?r =
      map_option (\<lambda>p. fmul demoEnv (parseFloat demoEnv (exposedAmount ?r)) p) (price ?r)"
    by blast
  then have 4: "exposedValueUSD ?r = Some 500"
    by (simp add: demoRecord_def demoEnv_def toString_500 parse_500)
  have 5: "price ?r = Some 1" by (simp add: demoRecord_def)
  from 1 2 3 4 5 run show ?thesis by simp
qed

text \<open>
  C10. In both basic scripts an empty spender list ends the run with exit status 1, before
  the loops over wallets and tokens are entered; no state, and so no result, is returned.
  It is the only way \<open>checkApprovals\<close> itself exits.
\<close>

theorem empty_spenders_exit:
  "checkApprovals e addresses tokens [] = Exit 1
   \<and> checkApprovalsPlain e addresses tokens [] = Exit 1
   \<and> ((\<exists>code. checkApprovals e addresses tokens spenders = Exit code) \<longleftrightarrow> spenders = [])
   \<and> ((\<exists>code. checkApprovalsPlain e addresses tokens spenders = Exit code) \<longleftrightarrow> spenders = [])"
  by (simp add: checkApprovals_def checkApprovalsPlain_def)

section \<open>Spender discovery\<close>

lemma distinct_newSpenders: "distinct (newSpenders events seen)"
  by (induction events arbitrary: seen) (auto simp: set_newSpenders)

lemma remdups_snoc: "remdups (ys @ [x]) = remdups (filter (\<lambda>y. y \<noteq> x) ys) @ [x]"
  by (induction ys) auto

lemma count_list_distinct:
  "distinct xs \<Longrightarrow> count_list xs s = (if s \<in> set xs then 1 else 0)"
  by (induction xs) auto

lemma newSpenders_first_occurrences:
  "newSpenders events seen = rev (remdups (rev (filter (\<lambda>x. x \<notin> seen) events)))"
proof (induction events arbitrary: seen)
  case Nil
  show ?case by simp
next
  case (Cons x events)
  show ?case
  proof (cases "x \<in> seen")
    case True
    with Cons show ?thesis by simp
  next
    case False
    have "rev (remdups (rev (filter (\<lambda>y. y \<notin> seen) (x # events))))
        = rev (remdups (rev (filter (\<lambda>y. y \<notin> seen) events) @ [x]))"
      using False by simp
    also have "\<dots> = x # rev (remdups (filter (\<lambda>y. y \<noteq> x) (rev (filter (\<lambda>y. y \<notin> seen) events))))"
      by (simp add: remdups_snoc)
    also have "filter (\<lambda>y. y \<noteq> x) (rev (filter (\<lambda>y. y \<notin> seen) events))
        = rev (filter (\<lambda>y. y \<notin> insert x seen) events)"
      by (simp add: rev_filter [symmetric] conj_commute)
    finally show ?thesis using False Cons.IH [of "insert x seen"] by simp
  qed
qed

lemma count_newSpenders:
  "count_list (newSpenders events {}) s = (if s \<in> set events then 1 else 0)"
proof -
  have "count_list (newSpenders events {}) s =
      (if s \<in> set (newSpenders events {}) then 1 else 0)"
    using distinct_newSpenders [of events "{}"] by (rule count_list_distinct)
  then show ?thesis by (simp add: set_newSpenders)
qed

text \<open>
  C5. From the Approval events returned for a wallet and a token, the loop checks each
  distinct spender exactly once, at its first occurrence: the spenders checked are the events
  with every repetition of an earlier spender removed, and what the loop returns is what the
  checks of these spenders return, in that order.
\<close>

theorem discovery_first_occurrence_once:
  "distinct (newSpenders events {})
   \<and> set (newSpenders events {}) = set events
   \<and> count_list (newSpenders events {}) spender = (if spender \<in> set events then 1 else 0)
   \<and> newSpenders events {} = rev (remdups (rev events))
   \<and> newSpenders (spender # events) {} = spender # filter (\<lambda>s. s \<noteq> spender) (newSpenders events {})
   \<and> processEvents e address tokenAddr symbol decimals prc bal events {} =
        (concat (map (\<lambda>s. fst (checkDiscovered e address tokenAddr symbol decimals prc bal s))
                   (newSpenders events {})),
         concat (map (\<lambda>s. snd (checkDiscovered e address tokenAddr symbol decimals prc bal s))
                   (newSpenders events {})))"
proof (intro conjI)
  show "distinct (newSpenders events {})" by (rule distinct_newSpenders)
  show "set (newSpenders events {}) = set events" by (simp add: set_newSpenders)
  show "count_list (newSpenders events {}) spender = (if spender \<in> set events then 1 else 0)"
    by (rule count_newSpenders)
  show "newSpenders events {} = rev (remdups (rev events))"
    by (simp add: newSpenders_first_occurrences)
  show "newSpenders (spender # events) {} =
      spender # filter (\<lambda>s. s \<noteq> spender) (newSpenders events {})"
    by (simp add: newSpenders_first_occurrences remdups_snoc rev_filter remdups_filter)
  show "processEvents e address tokenAddr symbol decimals prc bal events {} =
        (concat (map (\<lambda>s. fst (checkDiscovered e address tokenAddr symbol decimals prc bal s))
                   (newSpenders events {})),
         concat (map (\<lambda>s. snd (checkDiscovered e address tokenAddr symbol decimals prc bal s))
                   (newSpenders events {})))"
    by (rule processEvents_newSpenders)
qed

theorem discovery_first_occurrence_once_witness:
  "newSpenders [''S'', ''M'', ''S'', ''Z''] {} = [''S'', ''M'', ''Z'']
   \<and> count_list (newSpenders [''S'', ''M'', ''S'', ''Z''] {}) ''S'' = 1"
  using discovery_first_occurrence_once [of "[''S'', ''M'', ''S'', ''Z'']" "''S''"]
  by simp

section \<open>One record per checked triple\<close>

lemma triple_checkSpender:
  "map triple (fst (checkSpender e a t sy d p b s)) =
     (if fst (checkSpender e a t sy d p b s) \<noteq> [] then [(a, t, s)] else [])"
proof (cases "allowanceOf e t a s")
  case None
  then show ?thesis by (simp add: checkSpender_def)
next
  case (Some allow)
  show ?thesis
  proof (cases "exposureRecord e a t sy d p b s allow")
    case None
    with Some show ?thesis by (simp add: checkSpender_def)
  next
    case (Some r)
    note f = exposureRecord_fields [OF Some]
    from Some \<open>allowanceOf e t a s = Some allow\<close> show ?thesis
      by (simp add: checkSpender_def triple_def f(1,2,4))
  qed
qed

lemma checkDiscovered_checkSpender:
  "fst (checkDiscovered e a t sy d p b s) =
     (if allowanceOf e t a s = Some 0 then [] else fst (checkSpender e a t sy d p b s))"
  by (cases "allowanceOf e t a s")
     (simp_all add: checkDiscovered_def checkSpender_def toString_zero)

lemma triple_tripleRecords:
  "map triple (tripleRecords e a ti s) = (if recordable e a ti s then [(a, tokAddress ti, s)] else [])"
proof -
  obtain sy d p w1 where rt: "resolveToken e ti = ((sy, d, p), w1)"
    by (metis prod.exhaust)
  obtain b w2 where fb: "fetchBalance e (tokAddress ti) sy d a = (b, w2)"
    by (metis prod.exhaust)
  have 1: "tripleRecords e a ti s =
      (if newContract e (tokAddress ti) then fst (checkSpender e a (tokAddress ti) sy d p b s) else [])"
    by (simp add: tripleRecords_def rt fb)
  show ?thesis
    unfolding recordable_def 1 by (simp add: triple_checkSpender)
qed

lemma triple_basic_results:
  "map triple (concat (map (\<lambda>a. concat (map (\<lambda>ti. concat (map (tripleRecords e a ti) sps)) tis)) as))
   = [(a, tokAddress ti, s). a \<leftarrow> as, ti \<leftarrow> tis, s \<leftarrow> sps, recordable e a ti s]"
  by (simp add: map_concat comp_def triple_tripleRecords)

lemma triple_walletRecords:
  "map triple (walletRecords e ti sb cb a) =
     [(a, tokAddress ti, s). s \<leftarrow> discoveredSpenders e ti sb cb a,
        recordable e a ti s \<and> allowanceOf e (tokAddress ti) a s \<noteq> Some 0]"
proof -
  obtain sy d p w1 where rt: "resolveToken e ti = ((sy, d, p), w1)"
    by (metis prod.exhaust)
  obtain b w2 where fb: "fetchBalance e (tokAddress ti) sy d a = (b, w2)"
    by (metis prod.exhaust)
  have 1: "tripleRecords e a ti s =
      (if newContract e (tokAddress ti) then fst (checkSpender e a (tokAddress ti) sy d p b s) else [])"
    for s
    by (simp add: tripleRecords_def rt fb)
  show ?thesis
  proof (cases "newContract e (tokAddress ti)")
    case False
    then show ?thesis by (simp add: walletRecords_def recordable_def 1)
  next
    case True
    show ?thesis
    proof (cases "queryFilter e (tokAddress ti) a sb cb")
      case None
      then show ?thesis by (simp add: walletRecords_def discoveredSpenders_def rt fb)
    next
      case (Some events)
      have "walletRecords e ti sb cb a =
          concat (map (\<lambda>s. fst (checkDiscovered e a (tokAddress ti) sy d p b s)) (newSpenders events {}))"
        by (simp add: walletRecords_def rt fb True Some)
      moreover have "map triple (fst (checkDiscovered e a (tokAddress ti) sy d p b s)) =
          (if recordable e a ti s \<and> allowanceOf e (tokAddress ti) a s \<noteq> Some 0
           then [(a, tokAddress ti, s)] else [])" for s
        using True
        by (simp add: checkDiscovered_checkSpender recordable_def 1 triple_checkSpender)
      ultimately show ?thesis
        by (simp add: discoveredSpenders_def Some map_concat comp_def)
    qed
  qed
qed

lemma triple_advanced_results:
  "map triple (concat (map (\<lambda>ti. concat (map (walletRecords e ti sb cb) as)) tis))
   = [(a, tokAddress ti, s). ti \<leftarrow> tis, a \<leftarrow> as, s \<leftarrow> discoveredSpenders e ti sb cb a,
        recordable e a ti s \<and> allowanceOf e (tokAddress ti) a s \<noteq> Some 0]"
  by (simp add: map_concat comp_def triple_walletRecords)

lemma recordable_read:
  "recordable e a ti s \<Longrightarrow>
     newContract e (tokAddress ti) \<and> allowanceOf e (tokAddress ti) a s \<noteq> None"
proof -
  assume "recordable e a ti s"
  then have "hd (tripleRecords e a ti s) \<in> set (tripleRecords e a ti s)"
    by (simp add: recordable_def)
  then obtain r where "r \<in> set (tripleRecords e a ti s)" ..
  then show ?thesis by (auto simp: tripleRecords_recordedFor recordedFor_def)
qed

lemma exposureRecord_total:
  assumes "\<forall>v. formatUnits e v d \<noteq> None"
  shows "exposureRecord e a t sy d p b s allow \<noteq> None"
proof -
  from assms have "\<And>v. \<exists>y. formatUnits e v d = Some y" by auto
  then obtain f where f: "\<And>v. formatUnits e v d = Some (f v)" by metis
  show ?thesis by (simp add: exposureRecord_def Let_def f)
qed

lemma recordable_total:
  assumes "\<forall>v d. formatUnits e v d \<noteq> None" and "newContract e (tokAddress ti)"
    and "allowanceOf e (tokAddress ti) a s = Some allow"
  shows "recordable e a ti s"
proof -
  obtain sy d p w1 where rt: "resolveToken e ti = ((sy, d, p), w1)"
    by (metis prod.exhaust)
  obtain b w2 where fb: "fetchBalance e (tokAddress ti) sy d a = (b, w2)"
    by (metis prod.exhaust)
  from assms(1) have "exposureRecord e a (tokAddress ti) sy d p b s allow \<noteq> None"
    by (intro exposureRecord_total) simp
  then obtain r where "exposureRecord e a (tokAddress ti) sy d p b s allow = Some r" by auto
  then show ?thesis
    using assms(2,3) by (simp add: recordable_def tripleRecords_def rt fb checkSpender_def)
qed

lemma exposureRecord_Some_iff:
  "exposureRecord e a t sy d p b s allow \<noteq> None \<longleftrightarrow>
     (allow = MaxUint256 \<or> formatUnits e allow d \<noteq> None)
     \<and> formatUnits e (if allow = MaxUint256 then b else min allow b) d \<noteq> None
     \<and> formatUnits e b d \<noteq> None"
proof -
  have m: "(if allow > b then b else allow) = min allow b" by (simp add: min_def)
  show ?thesis
    by (cases "allow = MaxUint256")
       (auto simp: exposureRecord_def Let_def toString_inject m split: option.splits)
qed

lemma recordable_iff:
  "recordable e address tokenInfo spender \<longleftrightarrow>
     newContract e (tokAddress tokenInfo)
     \<and> (\<exists>allow. allowanceOf e (tokAddress tokenInfo) address spender = Some allow
          \<and> (allow = MaxUint256
               \<or> formatUnits e allow
                    (case symbolDecimals e (tokAddress tokenInfo) of
                       Some (symbol, decimals) \<Rightarrow> decimals | None \<Rightarrow> 18) \<noteq> None)
          \<and> formatUnits e
               (if allow = MaxUint256
                then (case balanceOf e (tokAddress tokenInfo) address of Some b \<Rightarrow> b | None \<Rightarrow> 0)
                else min allow
                       (case balanceOf e (tokAddress tokenInfo) address of Some b \<Rightarrow> b | None \<Rightarrow> 0))
               (case symbolDecimals e (tokAddress tokenInfo) of
                  Some (symbol, decimals) \<Rightarrow> decimals | None \<Rightarrow> 18) \<noteq> None
          \<and> formatUnits e
               (case balanceOf e (tokAddress tokenInfo) address of Some b \<Rightarrow> b | None \<Rightarrow> 0)
               (case symbolDecimals e (tokAddress tokenInfo) of
                  Some (symbol, decimals) \<Rightarrow> decimals | None \<Rightarrow> 18) \<noteq> None)"
proof -
  let ?d = "case symbolDecimals e (tokAddress tokenInfo) of
                  Some (symbol, decimals) \<Rightarrow> decimals | None \<Rightarrow> 18"
  let ?b = "case balanceOf e (tokAddress tokenInfo) address of Some b \<Rightarrow> b | None \<Rightarrow> 0"
  obtain sy d p w1 where rt: "resolveToken e tokenInfo = ((sy, d, p), w1)"
    by (metis prod.exhaust)
  obtain b w2 where fb: "fetchBalance e (tokAddress tokenInfo) sy d address = (b, w2)"
    by (metis prod.exhaust)
  from rt have d: "?d = d"
    by (auto simp: resolveToken_def split: option.splits)
  from fb have b: "?b = b"
    by (auto simp: fetchBalance_def split: option.splits)
  have 1: "recordable e address tokenInfo spender \<longleftrightarrow>
      newContract e (tokAddress tokenInfo) \<and>
      (\<exists>allow. allowanceOf e (tokAddress tokenInfo) address spender = Some allow \<and>
         exposureRecord e address (tokAddress tokenInfo) sy d p b spender allow \<noteq> None)"
    by (auto simp: recordable_def tripleRecords_def rt fb checkSpender_def split: option.splits)
  show ?thesis
    unfolding 1 exposureRecord_Some_iff d b ..
qed


lemma set_discoveredSpenders:
  "set (discoveredSpenders e tokenInfo startBlock currentBlock address) =
     (case queryFilter e (tokAddress tokenInfo) address startBlock currentBlock of
        None \<Rightarrow> {} | Some events \<Rightarrow> set events)"
  by (simp add: discoveredSpenders_def set_newSpenders split: option.splits)

text \<open>
  The tasks of a wave are started together and finish in any order. Run to completion one
  after the other in another order, they leave the same records and warnings, up to their
  order, and the same counter.
\<close>

lemma mset_concat_map_cong:
  "mset xs = mset ys \<Longrightarrow> mset (concat (map f xs)) = mset (concat (map f ys))"
proof -
  assume a: "mset xs = mset ys"
  have "mset (concat (map f zs)) = (\<Sum>z\<in>#mset zs. mset (f z))" for zs
    by (induction zs) simp_all
  with a show ?thesis by simp
qed

lemma spender_wave_order:
  assumes "mset wave' = mset wave"
  shows "mset (results (foldl (spenderTask e a t sy d p b) st wave')) =
           mset (results (foldl (spenderTask e a t sy d p b) st wave))"
    and "mset (warnings (foldl (spenderTask e a t sy d p b) st wave')) =
           mset (warnings (foldl (spenderTask e a t sy d p b) st wave))"
    and "completedTasks (foldl (spenderTask e a t sy d p b) st wave') =
           completedTasks (foldl (spenderTask e a t sy d p b) st wave)"
proof -
  from assms have l: "length wave' = length wave" by (rule mset_eq_length)
  show "mset (results (foldl (spenderTask e a t sy d p b) st wave')) =
           mset (results (foldl (spenderTask e a t sy d p b) st wave))"
    by (simp add: results_spenderTasks mset_concat_map_cong [OF assms])
  show "mset (warnings (foldl (spenderTask e a t sy d p b) st wave')) =
           mset (warnings (foldl (spenderTask e a t sy d p b) st wave))"
    by (simp add: warnings_spenderTasks mset_concat_map_cong [OF assms])
  show "completedTasks (foldl (spenderTask e a t sy d p b) st wave') =
           completedTasks (foldl (spenderTask e a t sy d p b) st wave)"
    by (simp add: completed_spenderTasks l)
qed

lemma address_wave_order:
  assumes "mset wave' = mset wave"
  shows "mset (results (foldl (addressTask e t sy d p sb cb) st wave')) =
           mset (results (foldl (addressTask e t sy d p sb cb) st wave))"
    and "mset (warnings (foldl (addressTask e t sy d p sb cb) st wave')) =
           mset (warnings (foldl (addressTask e t sy d p sb cb) st wave))"
    and "completedTasks (foldl (addressTask e t sy d p sb cb) st wave') =
           completedTasks (foldl (addressTask e t sy d p sb cb) st wave)"
proof -
  from assms have l: "length wave' = length wave" by (rule mset_eq_length)
  show "mset (results (foldl (addressTask e t sy d p sb cb) st wave')) =
           mset (results (foldl (addressTask e t sy d p sb cb) st wave))"
    by (simp add: results_addressTasks mset_concat_map_cong [OF assms])
  show "mset (warnings (foldl (addressTask e t sy d p sb cb) st wave')) =
           mset (warnings (foldl (addressTask e t sy d p sb cb) st wave))"
    by (simp add: warnings_addressTasks mset_concat_map_cong [OF assms])
  show "completedTasks (foldl (addressTask e t sy d p sb cb) st wave') =
           completedTasks (foldl (addressTask e t sy d p sb cb) st wave)"
    by (simp add: completed_addressTasks l)
qed

text \<open>
  C3. Every enumerated triple whose check ends with a record contributes exactly one
  record, and no other triple contributes any: as a multiset, whatever the order in which
  the tasks of a wave finish, the triples of the records are the enumerated triples, with
  their multiplicity, that are \<open>recordable\<close> (the earlier basic checker has no waves, and
  there the order is that of the enumeration too). A triple is recordable exactly when its
  contract is created, its allowance read returns, and \<open>formatUnits\<close> does not throw for
  the allowance (when it is not the maximal one), for the exposed amount and for the
  balance, the balance being 0 when its read failed; the amount of the allowance plays no
  other part, so basic mode records zero allowances. Advanced mode enumerates the spenders
  of the events returned for the wallet and token, each once, and leaves out the triples
  whose allowance is zero.
\<close>

theorem one_record_per_checked_triple:
  "(checkApprovals e addresses tokens spenders = Done st \<longrightarrow>
      mset (map triple (results st)) =
        mset [(a, tokAddress ti, s). a \<leftarrow> addresses, ti \<leftarrow> tokens, s \<leftarrow> spenders,
                recordable e a ti s])
   \<and> (checkApprovalsPlain e addresses tokens spenders = Done (rs, ws) \<longrightarrow>
      map triple rs =
        [(a, tokAddress ti, s). a \<leftarrow> addresses, ti \<leftarrow> tokens, s \<leftarrow> spenders,
           recordable e a ti s])
   \<and> (findAndCheckApprovals e addresses tokens lookbackBlocks = Done st' \<longrightarrow>
      (\<exists>currentBlock. getBlockNumber e = Some currentBlock \<and>
         mset (map triple (results st')) =
           mset [(a, tokAddress ti, s). ti \<leftarrow> tokens, a \<leftarrow> addresses,
                   s \<leftarrow> discoveredSpenders e ti (max 0 (currentBlock - lookbackBlocks)) currentBlock a,
                   recordable e a ti s \<and> allowanceOf e (tokAddress ti) a s \<noteq> Some 0]))
   \<and> (recordable e address tokenInfo spender \<longleftrightarrow>
        newContract e (tokAddress tokenInfo)
        \<and> (\<exists>allow. allowanceOf e (tokAddress tokenInfo) address spender = Some allow
             \<and> (allow = MaxUint256
                  \<or> formatUnits e allow
                       (case symbolDecimals e (tokAddress tokenInfo) of
                          Some (symbol, decimals) \<Rightarrow> decimals | None \<Rightarrow> 18) \<noteq> None)
             \<and> formatUnits e
                  (if allow = MaxUint256
                   then (case balanceOf e (tokAddress tokenInfo) address of Some b \<Rightarrow> b | None \<Rightarrow> 0)
                   else min allow
                          (case balanceOf e (tokAddress tokenInfo) address of Some b \<Rightarrow> b | None \<Rightarrow> 0))
                  (case symbolDecimals e (tokAddress tokenInfo) of
                     Some (symbol, decimals) \<Rightarrow> decimals | None \<Rightarrow> 18) \<noteq> None
             \<and> formatUnits e
                  (case balanceOf e (tokAddress tokenInfo) address of Some b \<Rightarrow> b | None \<Rightarrow> 0)
                  (case symbolDecimals e (tokAddress tokenInfo) of
                     Some (symbol, decimals) \<Rightarrow> decimals | None \<Rightarrow> 18) \<noteq> None))
   \<and> distinct (discoveredSpenders e tokenInfo startBlock currentBlock address)
   \<and> set (discoveredSpenders e tokenInfo startBlock currentBlock address) =
        (case queryFilter e (tokAddress tokenInfo) address startBlock currentBlock of
           None \<Rightarrow> {} | Some events \<Rightarrow> set events)"
proof (intro conjI impI)
  assume "checkApprovals e addresses tokens spenders = Done st"
  then have "st = foldl (\<lambda>st address. foldl (checkToken e address spenders) st tokens)
                  initialState addresses"
    by (simp add: checkApprovals_def split: if_splits)
  then have "map triple (results st) =
        [(a, tokAddress ti, s). a \<leftarrow> addresses, ti \<leftarrow> tokens, s \<leftarrow> spenders,
           recordable e a ti s]"
    by (simp only: results_checkAddresses initialState_def runState.simps append_Nil
          triple_basic_results)
  then show "mset (map triple (results st)) =
        mset [(a, tokAddress ti, s). a \<leftarrow> addresses, ti \<leftarrow> tokens, s \<leftarrow> spenders,
                recordable e a ti s]"
    by (rule arg_cong)
next
  assume "checkApprovalsPlain e addresses tokens spenders = Done (rs, ws)"
  then have "(rs, ws) = foldl (\<lambda>acc address. foldl (plainToken e address spenders) acc tokens)
                  ([], []) addresses"
    by (simp add: checkApprovalsPlain_def split: if_splits)
  then have "rs = fst (foldl (\<lambda>acc address. foldl (plainToken e address spenders) acc tokens)
                  ([], []) addresses)"
    by (metis fst_conv)
  then show "map triple rs =
        [(a, tokAddress ti, s). a \<leftarrow> addresses, ti \<leftarrow> tokens, s \<leftarrow> spenders,
           recordable e a ti s]"
    by (simp only: fst_plainAddresses fst_conv append_Nil triple_basic_results)
next
  assume "findAndCheckApprovals e addresses tokens lookbackBlocks = Done st'"
  from advanced_results [OF this] obtain cb where g: "getBlockNumber e = Some cb"
    and r: "results st' = concat (map (\<lambda>ti. concat (map
        (walletRecords e ti (max 0 (cb - lookbackBlocks)) cb) addresses)) tokens)"
    by blast
  have "map triple (results st') =
           [(a, tokAddress ti, s). ti \<leftarrow> tokens, a \<leftarrow> addresses,
              s \<leftarrow> discoveredSpenders e ti (max 0 (cb - lookbackBlocks)) cb a,
              recordable e a ti s \<and> allowanceOf e (tokAddress ti) a s \<noteq> Some 0]"
    by (simp only: r triple_advanced_results)
  then have "mset (map triple (results st')) =
           mset [(a, tokAddress ti, s). ti \<leftarrow> tokens, a \<leftarrow> addresses,
              s \<leftarrow> discoveredSpenders e ti (max 0 (cb - lookbackBlocks)) cb a,
              recordable e a ti s \<and> allowanceOf e (tokAddress ti) a s \<noteq> Some 0]"
    by (rule arg_cong)
  with g show "\<exists>currentBlock. getBlockNumber e = Some currentBlock \<and>
         mset (map triple (results st')) =
           mset [(a, tokAddress ti, s). ti \<leftarrow> tokens, a \<leftarrow> addresses,
                   s \<leftarrow> discoveredSpenders e ti (max 0 (currentBlock - lookbackBlocks)) currentBlock a,
                   recordable e a ti s \<and> allowanceOf e (tokAddress ti) a s \<noteq> Some 0]"
    by blast
next
  show "recordable e address tokenInfo spender \<longleftrightarrow>
        newContract e (tokAddress tokenInfo)
        \<and> (\<exists>allow. allowanceOf e (tokAddress tokenInfo) address spender = Some allow
             \<and> (allow = MaxUint256
                  \<or> formatUnits e allow
                       (case symbolDecimals e (tokAddress tokenInfo) of
                          Some (symbol, decimals) \<Rightarrow> decimals | None \<Rightarrow> 18) \<noteq> None)
             \<and> formatUnits e
                  (if allow = MaxUint256
                   then (case balanceOf e (tokAddress tokenInfo) address of Some b \<Rightarrow> b | None \<Rightarrow> 0)
                   else min allow
                          (case balanceOf e (tokAddress tokenInfo) address of Some b \<Rightarrow> b | None \<Rightarrow> 0))
                  (case symbolDecimals e (tokAddress tokenInfo) of
                     Some (symbol, decimals) \<Rightarrow> decimals | None \<Rightarrow> 18) \<noteq> None
             \<and> formatUnits e
                  (case balanceOf e (tokAddress tokenInfo) address of Some b \<Rightarrow> b | None \<Rightarrow> 0)
                  (case symbolDecimals e (tokAddress tokenInfo) of
                     Some (symbol, decimals) \<Rightarrow> decimals | None \<Rightarrow> 18) \<noteq> None)"
    by (rule recordable_iff)
next
  show "distinct (discoveredSpenders e tokenInfo startBlock currentBlock address)"
    by (simp add: discoveredSpenders_def distinct_newSpenders split: option.splits)
next
  show "set (discoveredSpenders e tokenInfo startBlock currentBlock address) =
        (case queryFilter e (tokAddress tokenInfo) address startBlock currentBlock of
           None \<Rightarrow> {} | Some events \<Rightarrow> set events)"
    by (rule set_discoveredSpenders)
qed

theorem one_record_per_checked_triple_witness:
  "checkApprovals demoEnv [''A''] [usdtLine] [''S'', ''Z'', ''Q''] =
     Done \<lparr> results = [demoRecord ''T'' ''USDT'' ''S'' 1000 500 (Some 1),
                        demoRecord ''T'' ''USDT'' ''Z'' 0 0 (Some 1)],
            completedTasks = Num 3, warnings = [AllowanceWarning ''A'' ''T'' ''Q''] \<rparr>
   \<and> mset [(a, tokAddress ti, s). a \<leftarrow> [''A''], ti \<leftarrow> [usdtLine], s \<leftarrow> [''S'', ''Z'', ''Q''],
         recordable demoEnv a ti s] = {#(''A'', ''T'', ''S''), (''A'', ''T'', ''Z'')#}
   \<and> recordable demoEnv ''A'' usdtLine ''Z''
   \<and> \<not> recordable demoEnv ''A'' usdtLine ''Q''
   \<and> findAndCheckApprovals demoEnv [''A''] [usdtLine] 50 =
     Done \<lparr> results = [demoRecord ''T'' ''USDT'' ''S'' 1000 500 (Some 1),
                        demoRecord ''T'' ''USDT'' ''M'' MaxUint256 500 (Some 1)],
            completedTasks = Num 1, warnings = [] \<rparr>
   \<and> mset [(a, tokAddress ti, s). ti \<leftarrow> [usdtLine], a \<leftarrow> [''A''],
         s \<leftarrow> discoveredSpenders demoEnv ti 50 100 a,
         recordable demoEnv a ti s \<and> allowanceOf demoEnv (tokAddress ti) a s \<noteq> Some 0]
       = {#(''A'', ''T'', ''S''), (''A'', ''T'', ''M'')#}
   \<and> set (discoveredSpenders demoEnv usdtLine 50 100 ''A'') = {''S'', ''M'', ''Z''}"
proof -
  let ?st = "\<lparr> results = [demoRecord ''T'' ''USDT'' ''S'' 1000 500 (Some 1),
                        demoRecord ''T'' ''USDT'' ''Z'' 0 0 (Some 1)],
            completedTasks = Num 3, warnings = [AllowanceWarning ''A'' ''T'' ''Q''] \<rparr>"
  let ?st' = "\<lparr> results = [demoRecord ''T'' ''USDT'' ''S'' 1000 500 (Some 1),
                        demoRecord ''T'' ''USDT'' ''M'' MaxUint256 500 (Some 1)],
            completedTasks = Num 1, warnings = [] \<rparr>"
  note t = one_record_per_checked_triple [of demoEnv "[''A'']" "[usdtLine]" "[''S'', ''Z'', ''Q'']"
      ?st "[]" "[]" 50 ?st']
  have g: "getBlockNumber demoEnv = Some 100" by (simp add: demoEnv_def)
  from t demo_basic_run_zero
  have "mset (map triple (results ?st)) =
      mset [(a, tokAddress ti, s). a \<leftarrow> [''A''], ti \<leftarrow> [usdtLine], s \<leftarrow> [''S'', ''Z'', ''Q''],
         recordable demoEnv a ti s]"
    by blast
  then have 1: "mset [(a, tokAddress ti, s). a \<leftarrow> [''A''], ti \<leftarrow> [usdtLine], s \<leftarrow> [''S'', ''Z'', ''Q''],
         recordable demoEnv a ti s] = {#(''A'', ''T'', ''S''), (''A'', ''T'', ''Z'')#}"
    by (simp add: triple_def demoRecord_def)
  from t demo_advanced_run
  have "\<exists>currentBlock. getBlockNumber demoEnv = Some currentBlock \<and>
         mset (map triple (results ?st')) =
           mset [(a, tokAddress ti, s). ti \<leftarrow> [usdtLine], a \<leftarrow> [''A''],
              s \<leftarrow> discoveredSpenders demoEnv ti (max 0 (currentBlock - 50)) currentBlock a,
              recordable demoEnv a ti s \<and> allowanceOf demoEnv (tokAddress ti) a s \<noteq> Some 0]"
    by blast
  then have "mset (map triple (results ?st')) =
           mset [(a, tokAddress ti, s). ti \<leftarrow> [usdtLine], a \<leftarrow> [''A''],
              s \<leftarrow> discoveredSpenders demoEnv ti 50 100 a,
              recordable demoEnv a ti s \<and> allowanceOf demoEnv (tokAddress ti) a s \<noteq> Some 0]"
    by (simp add: g)
  then have 2: "mset [(a, tokAddress ti, s). ti \<leftarrow> [usdtLine], a \<leftarrow> [''A''],
              s \<leftarrow> discoveredSpenders demoEnv ti 50 100 a,
              recordable demoEnv a ti s \<and> allowanceOf demoEnv (tokAddress ti) a s \<noteq> Some 0]
       = {#(''A'', ''T'', ''S''), (''A'', ''T'', ''M'')#}"
    by (simp add: triple_def demoRecord_def)
  have u: "tokAddress usdtLine = ''T''" by (simp add: usdtLine_def)
  have f: "formatUnits demoEnv v 0 \<noteq> None" for v by (simp add: demoEnv_def)
  have sd: "symbolDecimals demoEnv ''T'' = Some (''USDT'', 0)" by (simp add: demoEnv_def)
  have n: "newContract demoEnv ''T''" by (simp add: demoEnv_def)
  have 3: "recordable demoEnv ''A'' usdtLine ''Z''"
    using one_record_per_checked_triple [of demoEnv "[]" "[]" "[]" initialState "[]" "[]" 0
            initialState "''A''" usdtLine "''Z''" 50 100]
    by (simp add: u sd n f demo_allowances)
  have 4: "\<not> recordable demoEnv ''A'' usdtLine ''Q''"
    using one_record_per_checked_triple [of demoEnv "[]" "[]" "[]" initialState "[]" "[]" 0
            initialState "''A''" usdtLine "''Q''" 50 100]
    by (simp add: u demo_allowances)
  have q: "queryFilter demoEnv ''T'' ''A'' 50 100 = Some [''S'', ''M'', ''S'', ''Z'']"
    by (simp add: demoEnv_def)
  have 5: "set (discoveredSpenders demoEnv usdtLine 50 100 ''A'') = {''S'', ''M'', ''Z''}"
    using one_record_per_checked_triple [of demoEnv "[]" "[]" "[]" initialState "[]" "[]" 0
            initialState "''A''" usdtLine "''Z''" 50 100]
    by (simp add: u q) blast
  from 1 2 3 4 5 demo_basic_run_zero demo_advanced_run show ?thesis by simp
qed

text \<open>
  C3 as written fails where an allowance read fails: the only enumerated triple of this
  basic run, wallet \<open>A\<close>, token \<open>T\<close>, spender \<open>Q\<close>, leaves no record.
\<close>

theorem enumerated_triple_without_record:
  "checkApprovals demoEnv [''A''] [usdtLine] [''Q''] =
     Done \<lparr> results = [], completedTasks = Num 1,
            warnings = [AllowanceWarning ''A'' ''T'' ''Q''] \<rparr>"
  by (rule demo_basic_run_failed_read)

section \<open>Failed reads and the task counter\<close>

lemma completed_basic_total:
  assumes "checkApprovals e addresses tokens spenders = Done st"
  shows "completedTasks st = Num (int (length addresses * length tokens * length spenders))"
proof -
  from assms have "st = foldl (\<lambda>st address. foldl (checkToken e address spenders) st tokens)
                  initialState addresses"
    by (simp add: checkApprovals_def split: if_splits)
  then show ?thesis
    by (simp add: completed_checkAddresses initialState_def)
qed

lemma completed_advanced_total:
  assumes "findAndCheckApprovals e addresses tokens lookbackBlocks = Done st"
    and "addresses \<noteq> []"
  shows "completedTasks st = Num (int (length tokens * length addresses))"
proof -
  from assms(1) obtain cb where
    "st = foldl (findToken e addresses (max 0 (cb - lookbackBlocks)) cb) initialState tokens"
    by (auto simp: findAndCheckApprovals_def Let_def split: option.splits)
  moreover have "completedTasks initialState = Num (int (0 * length addresses))"
    by (simp add: initialState_def)
  ultimately show ?thesis
    using completed_findTokens [OF assms(2), of initialState 0 e _ _ tokens] by simp
qed

lemma completed_findTokens_ok:
  "\<forall>ti \<in> set tis. newContract e (tokAddress ti) \<Longrightarrow>
   completedTasks (foldl (findToken e as sb cb) st tis) =
     jsAdd (completedTasks st) (Num (int (length tis * length as)))"
proof (induction tis arbitrary: st)
  case Nil
  show ?case by (simp add: jsAdd_zero)
next
  case (Cons ti tis)
  then show ?case
    by (simp add: completed_findToken_ok jsAdd_assoc_Num algebra_simps)
qed

lemma completed_advanced_total_ok:
  assumes "findAndCheckApprovals e addresses tokens lookbackBlocks = Done st"
    and "\<forall>ti \<in> set tokens. newContract e (tokAddress ti)"
  shows "completedTasks st = Num (int (length tokens * length addresses))"
proof -
  from assms(1) obtain cb where
    "st = foldl (findToken e addresses (max 0 (cb - lookbackBlocks)) cb) initialState tokens"
    by (auto simp: findAndCheckApprovals_def Let_def split: option.splits)
  then show ?thesis
    by (simp add: completed_findTokens_ok [OF assms(2)] initialState_def)
qed

lemma demo_basic_run_broken:
  "checkApprovals demoEnv [''A''] [brokenLine] [''S'', ''Q''] =
     Done \<lparr> results = [], completedTasks = Num 2, warnings = [TokenWarning ''X''] \<rparr>"
  by (simp add: checkApprovals_def checkToken_def brokenLine_def demoEnv_def initialState_def)

lemma demo_advanced_run_broken:
  "findAndCheckApprovals demoEnv [''A''] [usdtLine, brokenLine] 50 =
     Done \<lparr> results = [demoRecord ''T'' ''USDT'' ''S'' 1000 500 (Some 1),
                        demoRecord ''T'' ''USDT'' ''M'' MaxUint256 500 (Some 1)],
            completedTasks = Num 2, warnings = [TokenWarning ''X''] \<rparr>"
proof -
  have t: "tokAddress usdtLine = ''T''" by (simp add: usdtLine_def)
  have x: "tokAddress brokenLine = ''X''" by (simp add: brokenLine_def)
  have n: "newContract demoEnv ''T''" "\<not> newContract demoEnv ''X''" by (simp_all add: demoEnv_def)
  have g: "getBlockNumber demoEnv = Some 100" by (simp add: demoEnv_def)
  have q: "queryFilter demoEnv ''T'' ''A'' 50 100 = Some [''S'', ''M'', ''S'', ''Z'']"
    by (simp add: demoEnv_def)
  show ?thesis
    by (simp add: findAndCheckApprovals_def findToken_def g t x n q demo_resolve_usdt demo_balance
          demo_batches1 addressTask_def demo_discovered_S demo_discovered_M demo_discovered_Z
          initialState_def Let_def)
qed

lemma demo_advanced_run_no_wallet:
  "findAndCheckApprovals demoEnv [] [usdtLine] 50 =
     Done \<lparr> results = [], completedTasks = Num 0, warnings = [] \<rparr>"
proof -
  have t: "tokAddress usdtLine = ''T''" by (simp add: usdtLine_def)
  have n: "newContract demoEnv ''T''" by (simp add: demoEnv_def)
  have g: "getBlockNumber demoEnv = Some 100" by (simp add: demoEnv_def)
  have b: "batchesFrom ([]::string list) 0 = []" by (simp add: batchesFrom.simps)
  show ?thesis
    by (simp add: findAndCheckApprovals_def findToken_def g t n demo_resolve_usdt b
          initialState_def Let_def)
qed

text \<open>
  With no wallet there is no task, and the \<open>catch\<close> of a token, were it ever entered,
  would compute \<open>addresses.length - completedTasks % addresses.length\<close> with a zero divisor.
\<close>

lemma demo_advanced_run_no_wallet_broken:
  "findAndCheckApprovals demoEnv [] [brokenLine] 50 =
     Done \<lparr> results = [], completedTasks = NaN, warnings = [TokenWarning ''X''] \<rparr>"
  by (simp add: findAndCheckApprovals_def findToken_def demoEnv_def initialState_def brokenLine_def)

text \<open>
  C4. When a run of the basic checker ends, the counter is the number of tasks,
  wallets times tokens times spenders, whatever failed; when a run of the advanced checker
  ends, it is the number of tasks, tokens times wallets, provided there is a wallet or every
  token contract is created (the constructor is given a provider and a string, and the
  remaining case needs it to throw). Every task adds exactly one to the counter, whether
  its check ends with a record, a warning or nothing; a token whose processing fails as a
  whole is counted by its handler, which adds the tasks of the token: all spenders in
  basic mode, and in advanced mode what brings the counter to the next multiple of the
  number of wallets.
\<close>

theorem counter_reaches_total:
  "(checkApprovals e addresses tokens spenders = Done st \<longrightarrow>
      completedTasks st = Num (int (length addresses * length tokens * length spenders)))
   \<and> (findAndCheckApprovals e addresses tokens lookbackBlocks = Done st' \<longrightarrow>
        addresses \<noteq> [] \<or> (\<forall>ti \<in> set tokens. newContract e (tokAddress ti)) \<longrightarrow>
      completedTasks st' = Num (int (length tokens * length addresses)))
   \<and> completedTasks (spenderTask e a t sy d p b st0 s) = jsAdd (completedTasks st0) (Num 1)
   \<and> completedTasks (addressTask e t sy d p sb cb st0 a) = jsAdd (completedTasks st0) (Num 1)
   \<and> completedTasks (checkToken e a sps st0 ti) =
        jsAdd (completedTasks st0) (Num (int (length sps)))
   \<and> (newContract e (tokAddress ti) \<longrightarrow>
        completedTasks (findToken e as sb cb st0 ti) =
          jsAdd (completedTasks st0) (Num (int (length as))))
   \<and> (as \<noteq> [] \<and> completedTasks st0 = Num (int (k * length as)) \<longrightarrow>
        completedTasks (findToken e as sb cb st0 ti) = Num (int ((k + 1) * length as)))"
proof (intro conjI impI)
  assume "checkApprovals e addresses tokens spenders = Done st"
  then show "completedTasks st = Num (int (length addresses * length tokens * length spenders))"
    by (rule completed_basic_total)
next
  assume run: "findAndCheckApprovals e addresses tokens lookbackBlocks = Done st'"
    and h: "addresses \<noteq> [] \<or> (\<forall>ti \<in> set tokens. newContract e (tokAddress ti))"
  from h show "completedTasks st' = Num (int (length tokens * length addresses))"
  proof
    assume "addresses \<noteq> []"
    with run show ?thesis by (rule completed_advanced_total)
  next
    assume "\<forall>ti \<in> set tokens. newContract e (tokAddress ti)"
    with run show ?thesis by (rule completed_advanced_total_ok)
  qed
next
  show "completedTasks (spenderTask e a t sy d p b st0 s) = jsAdd (completedTasks st0) (Num 1)"
    by (simp add: spenderTask_def split: prod.splits)
next
  show "completedTasks (addressTask e t sy d p sb cb st0 a) = jsAdd (completedTasks st0) (Num 1)"
    by (simp add: addressTask_def split: prod.splits)
next
  show "completedTasks (checkToken e a sps st0 ti) =
        jsAdd (completedTasks st0) (Num (int (length sps)))"
    by (rule completed_checkToken)
next
  assume "newContract e (tokAddress ti)"
  then show "completedTasks (findToken e as sb cb st0 ti) =
          jsAdd (completedTasks st0) (Num (int (length as)))"
    by (rule completed_findToken_ok)
next
  assume "as \<noteq> [] \<and> completedTasks st0 = Num (int (k * length as))"
  then show "completedTasks (findToken e as sb cb st0 ti) = Num (int ((k + 1) * length as))"
    using completed_findToken [of as st0 k e sb cb ti] by simp
qed

theorem counter_reaches_total_witness:
  "checkApprovals demoEnv [''A''] [brokenLine] [''S'', ''Q''] =
     Done \<lparr> results = [], completedTasks = Num 2, warnings = [TokenWarning ''X''] \<rparr>
   \<and> checkApprovals demoEnv [''A''] [usdtLine] [''S'', ''Z'', ''Q''] =
     Done \<lparr> results = [demoRecord ''T'' ''USDT'' ''S'' 1000 500 (Some 1),
                        demoRecord ''T'' ''USDT'' ''Z'' 0 0 (Some 1)],
            completedTasks = Num 3, warnings = [AllowanceWarning ''A'' ''T'' ''Q''] \<rparr>
   \<and> findAndCheckApprovals demoEnv [''A''] [usdtLine, brokenLine] 50 =
     Done \<lparr> results = [demoRecord ''T'' ''USDT'' ''S'' 1000 500 (Some 1),
                        demoRecord ''T'' ''USDT'' ''M'' MaxUint256 500 (Some 1)],
            completedTasks = Num 2, warnings = [TokenWarning ''X''] \<rparr>
   \<and> findAndCheckApprovals demoEnv [] [usdtLine] 50 =
     Done \<lparr> results = [], completedTasks = Num 0, warnings = [] \<rparr>
   \<and> completedTasks
        (findToken demoEnv [''A'', ''B''] 50 100
           \<lparr> results = [], completedTasks = Num 2, warnings = [] \<rparr> brokenLine) = Num 4"
proof -
  let ?b = "\<lparr> results = [], completedTasks = Num 2, warnings = [TokenWarning ''X''] \<rparr>"
  let ?z = "\<lparr> results = [demoRecord ''T'' ''USDT'' ''S'' 1000 500 (Some 1),
                        demoRecord ''T'' ''USDT'' ''Z'' 0 0 (Some 1)],
            completedTasks = Num 3, warnings = [AllowanceWarning ''A'' ''T'' ''Q''] \<rparr>"
  let ?a = "\<lparr> results = [demoRecord ''T'' ''USDT'' ''S'' 1000 500 (Some 1),
                        demoRecord ''T'' ''USDT'' ''M'' MaxUint256 500 (Some 1)],
            completedTasks = Num 2, warnings = [TokenWarning ''X''] \<rparr>"
  let ?n = "\<lparr> results = [], completedTasks = Num 0, warnings = [] \<rparr>"
  let ?s = "\<lparr> results = [], completedTasks = Num 2, warnings = [] \<rparr>"
  have 1: "completedTasks ?b = Num (int (length [''A''] * length [brokenLine] * length [''S'', ''Q'']))"
    using counter_reaches_total [of demoEnv "[''A'']" "[brokenLine]" "[''S'', ''Q'']" ?b]
      demo_basic_run_broken
    by blast
  have 2: "completedTasks ?z = Num (int (length [''A''] * length [usdtLine] * length [''S'', ''Z'', ''Q'']))"
    using counter_reaches_total [of demoEnv "[''A'']" "[usdtLine]" "[''S'', ''Z'', ''Q'']" ?z]
      demo_basic_run_zero
    by blast
  have "[''A''] \<noteq> ([]::string list) \<or>
          (\<forall>ti \<in> set [usdtLine, brokenLine]. newContract demoEnv (tokAddress ti))"
    by simp
  with counter_reaches_total [of demoEnv "[''A'']" "[usdtLine, brokenLine]" "[''S'', ''Q'']" ?b 50 ?a]
    demo_advanced_run_broken
  have 3: "completedTasks ?a = Num (int (length [usdtLine, brokenLine] * length [''A'']))"
    by blast
  have "([]::string list) \<noteq> [] \<or> (\<forall>ti \<in> set [usdtLine]. newContract demoEnv (tokAddress ti))"
    by (simp add: usdtLine_def demoEnv_def)
  with counter_reaches_total [of demoEnv "[]" "[usdtLine]" "[''S'', ''Q'']" ?b 50 ?n]
    demo_advanced_run_no_wallet
  have 4: "completedTasks ?n = Num (int (length [usdtLine] * length ([]::string list)))"
    by blast
  have "[''A'', ''B''] \<noteq> [] \<and> completedTasks ?s = Num (int (1 * length [''A'', ''B'']))"
    by simp
  with counter_reaches_total [where e = demoEnv and as = "[''A'', ''B'']" and ?st0.0 = ?s
      and k = 1 and ti = brokenLine and sb = 50 and cb = 100]
  have 5: "completedTasks (findToken demoEnv [''A'', ''B''] 50 100 ?s brokenLine)
            = Num (int ((1 + 1) * length [''A'', ''B'']))"
    by blast
  from 1 2 3 4 5 demo_basic_run_broken demo_basic_run_zero demo_advanced_run_broken
    demo_advanced_run_no_wallet
  show ?thesis by simp
qed

lemma basic_warnings:
  assumes "checkApprovals e addresses tokens spenders = Done st"
  shows "warnings st = concat (map (\<lambda>a. concat (map (pairWarnings e a spenders) tokens)) addresses)"
proof -
  from assms have "st = foldl (\<lambda>st address. foldl (checkToken e address spenders) st tokens)
                  initialState addresses"
    by (simp add: checkApprovals_def split: if_splits)
  then show ?thesis
    by (simp add: warnings_checkAddresses initialState_def)
qed

lemma advanced_warnings:
  assumes "findAndCheckApprovals e addresses tokens lookbackBlocks = Done st"
  shows "\<exists>currentBlock. getBlockNumber e = Some currentBlock \<and>
     warnings st = concat (map
        (tokenWarnings e addresses (max 0 (currentBlock - lookbackBlocks)) currentBlock) tokens)"
  using assms
  by (auto simp: findAndCheckApprovals_def Let_def warnings_findTokens initialState_def
        split: option.splits)

lemma pairWarnings_allowance:
  assumes "newContract e (tokAddress ti)" and "s \<in> set sps"
    and "allowanceOf e (tokAddress ti) a s = None"
  shows "AllowanceWarning a (tokAddress ti) s \<in> set (pairWarnings e a sps ti)"
proof -
  obtain sy d p w1 where rt: "resolveToken e ti = ((sy, d, p), w1)"
    by (metis prod.exhaust)
  obtain b w2 where fb: "fetchBalance e (tokAddress ti) sy d a = (b, w2)"
    by (metis prod.exhaust)
  have "tripleWarnings e a ti s = [AllowanceWarning a (tokAddress ti) s]"
    by (simp add: tripleWarnings_def rt fb checkSpender_def assms(3))
  with assms(1,2) show ?thesis
    by (force simp: pairWarnings_def rt fb)
qed

lemma pairWarnings_balance:
  assumes "newContract e (tokAddress ti)" and "balanceOf e (tokAddress ti) a = None"
  shows "BalanceWarning a (fst (fst (resolveToken e ti))) \<in> set (pairWarnings e a sps ti)"
proof -
  obtain sy d p w1 where rt: "resolveToken e ti = ((sy, d, p), w1)"
    by (metis prod.exhaust)
  have fb: "fetchBalance e (tokAddress ti) sy d a = (0, [BalanceWarning a sy])"
    by (simp add: fetchBalance_def assms(2))
  from assms(1) show ?thesis
    by (simp add: pairWarnings_def rt fb)
qed

lemma tokenWarnings_events:
  assumes "newContract e (tokAddress ti)" and "a \<in> set as"
    and "queryFilter e (tokAddress ti) a sb cb = None"
  shows "EventsWarning a \<in> set (tokenWarnings e as sb cb ti)"
proof -
  obtain sy d p w1 where rt: "resolveToken e ti = ((sy, d, p), w1)"
    by (metis prod.exhaust)
  obtain b w2 where fb: "fetchBalance e (tokAddress ti) sy d a = (b, w2)"
    by (metis prod.exhaust)
  have "EventsWarning a \<in> set (walletWarnings e ti sb cb a)"
    by (simp add: walletWarnings_def rt fb assms(3))
  with assms(1,2) show ?thesis
    by (force simp: tokenWarnings_def)
qed

lemma tokenWarnings_allowance:
  assumes "newContract e (tokAddress ti)" and "a \<in> set as"
    and "s \<in> set (discoveredSpenders e ti sb cb a)"
    and "allowanceOf e (tokAddress ti) a s = None"
  shows "AllowanceWarning a (tokAddress ti) s \<in> set (tokenWarnings e as sb cb ti)"
proof -
  obtain sy d p w1 where rt: "resolveToken e ti = ((sy, d, p), w1)"
    by (metis prod.exhaust)
  obtain b w2 where fb: "fetchBalance e (tokAddress ti) sy d a = (b, w2)"
    by (metis prod.exhaust)
  from assms(3) obtain events where q: "queryFilter e (tokAddress ti) a sb cb = Some events"
    and s: "s \<in> set (newSpenders events {})"
    by (cases "queryFilter e (tokAddress ti) a sb cb") (auto simp: discoveredSpenders_def)
  have "snd (checkDiscovered e a (tokAddress ti) sy d p b s) = [AllowanceWarning a (tokAddress ti) s]"
    by (simp add: checkDiscovered_def assms(4))
  with s have "AllowanceWarning a (tokAddress ti) s \<in> set (walletWarnings e ti sb cb a)"
    by (force simp: walletWarnings_def rt fb q)
  with assms(1,2) show ?thesis
    by (force simp: tokenWarnings_def)
qed

lemma recordedFor_reads:
  assumes "recordedFor e ti a s allow r"
  shows "allowanceOf e (tokenAddress r) (walletAddress r) (spenderAddress r) = Some allow"
    and "balanceOf e (tokenAddress r) (walletAddress r) = None \<Longrightarrow>
           rawBalance r = ''0'' \<and> rawExposedAmount r = ''0''"
proof -
  obtain sy d p w1 where rt: "resolveToken e ti = ((sy, d, p), w1)"
    by (metis prod.exhaust)
  from assms have al: "allowanceOf e (tokAddress ti) a s = Some allow"
    and ex: "exposureRecord e a (tokAddress ti) sy d p
               (fst (fetchBalance e (tokAddress ti) sy d a)) s allow = Some r"
    by (simp_all add: recordedFor_def rt)
  note f = exposureRecord_fields [OF ex]
  show "allowanceOf e (tokenAddress r) (walletAddress r) (spenderAddress r) = Some allow"
    by (simp add: f(1,2,4) al)
  assume "balanceOf e (tokenAddress r) (walletAddress r) = None"
  then have "fst (fetchBalance e (tokAddress ti) sy d a) = 0"
    by (simp add: f(1,2) fetchBalance_def)
  then show "rawBalance r = ''0'' \<and> rawExposedAmount r = ''0''"
    by (simp add: f(6,9) toString_zero)
qed

lemma demo_run_unread_balance:
  "checkApprovals demoEnv [''B''] [usdtLine] [''S''] =
     Done \<lparr> results =
              [\<lparr> walletAddress = ''B'', tokenAddress = ''T'', tokenSymbol = ''USDT'',
                 spenderAddress = ''S'', allowance = ''1000'', rawAllowance = ''1000'',
                 isInfiniteApproval = False, balance = ''0'', rawBalance = ''0'',
                 exposedAmount = ''0'', rawExposedAmount = ''0'',
                 price = Some 1, exposedValueUSD = Some 0 \<rparr>],
            completedTasks = Num 1,
            warnings = [BalanceWarning ''B'' ''USDT''] \<rparr>"
proof -
  have t: "tokAddress usdtLine = ''T''" by (simp add: usdtLine_def)
  have n: "newContract demoEnv ''T''" by (simp add: demoEnv_def)
  have b: "fetchBalance demoEnv ''T'' ''USDT'' 0 ''B'' = (0, [BalanceWarning ''B'' ''USDT''])"
    by (simp add: fetchBalance_def demoEnv_def)
  have f: "formatUnits demoEnv v 0 = Some (toString v)" for v
    by (simp add: demoEnv_def)
  have z: "toString 0 = ''0''" by code_simp
  have p: "parseFloat demoEnv ''0'' = 0"
    by (simp add: demoEnv_def parseBigInt_def digitValue_def)
  have m: "fmul demoEnv 0 1 = 0" by (simp add: demoEnv_def)
  have ne: "''1000'' \<noteq> toString MaxUint256"
    using max_ne_1000 by (simp add: toString_1000)
  have x: "exposureRecord demoEnv ''B'' ''T'' ''USDT'' 0 (Some 1) 0 ''S'' 1000 =
      Some \<lparr> walletAddress = ''B'', tokenAddress = ''T'', tokenSymbol = ''USDT'',
                 spenderAddress = ''S'', allowance = ''1000'', rawAllowance = ''1000'',
                 isInfiniteApproval = False, balance = ''0'', rawBalance = ''0'',
                 exposedAmount = ''0'', rawExposedAmount = ''0'',
                 price = Some 1, exposedValueUSD = Some 0 \<rparr>"
    by (simp add: exposureRecord_def Let_def f ne z toString_1000 p m)
  show ?thesis
    by (simp add: checkApprovals_def checkToken_def t n demo_resolve_usdt b demo_batches1
          spenderTask_def checkSpender_def demo_allowances x initialState_def Let_def)
qed

lemma demo_advanced_run_failed_query:
  "findAndCheckApprovals demoEnv [''B''] [usdtLine] 50 =
     Done \<lparr> results = [], completedTasks = Num 1,
            warnings = [BalanceWarning ''B'' ''USDT'', EventsWarning ''B''] \<rparr>"
proof -
  have t: "tokAddress usdtLine = ''T''" by (simp add: usdtLine_def)
  have n: "newContract demoEnv ''T''" by (simp add: demoEnv_def)
  have g: "getBlockNumber demoEnv = Some 100" by (simp add: demoEnv_def)
  have q: "queryFilter demoEnv ''T'' ''B'' 50 100 = None" by (simp add: demoEnv_def)
  have b: "fetchBalance demoEnv ''T'' ''USDT'' 0 ''B'' = (0, [BalanceWarning ''B'' ''USDT''])"
    by (simp add: fetchBalance_def demoEnv_def)
  show ?thesis
    by (simp add: findAndCheckApprovals_def findToken_def g t n q b demo_resolve_usdt
          demo_batches1 addressTask_def initialState_def Let_def)
qed

lemma tokenWarnings_balance:
  assumes "newContract e (tokAddress ti)" and "a \<in> set as"
    and "balanceOf e (tokAddress ti) a = None"
  shows "BalanceWarning a (fst (fst (resolveToken e ti))) \<in> set (tokenWarnings e as sb cb ti)"
proof -
  obtain sy d p w1 where rt: "resolveToken e ti = ((sy, d, p), w1)"
    by (metis prod.exhaust)
  have fb: "fetchBalance e (tokAddress ti) sy d a = (0, [BalanceWarning a sy])"
    by (simp add: fetchBalance_def assms(3))
  have "BalanceWarning a sy \<in> set (walletWarnings e ti sb cb a)"
    by (simp add: walletWarnings_def rt fb)
  with assms(1,2) show ?thesis
    by (force simp: tokenWarnings_def rt)
qed

lemma resolved_symbol:
  "fst (fst (resolveToken e ti)) =
     (case symbolDecimals e (tokAddress ti) of
        Some (symbol, decimals) \<Rightarrow> symbol | None \<Rightarrow> unknownSymbol)"
  by (simp add: resolveToken_def split: option.splits)

lemma resolved_decimals:
  "fst (snd (fst (resolveToken e ti))) =
     (case symbolDecimals e (tokAddress ti) of
        Some (symbol, decimals) \<Rightarrow> decimals | None \<Rightarrow> 18)"
  by (simp add: resolveToken_def split: option.splits)

lemma recordedFor_unread_balance:
  assumes n: "newContract e (tokAddress ti)"
    and b: "balanceOf e (tokAddress ti) a = None"
    and al: "allowanceOf e (tokAddress ti) a s = Some allow"
    and f1: "allow = MaxUint256 \<or> formatUnits e allow
               (case symbolDecimals e (tokAddress ti) of
                  Some (symbol, decimals) \<Rightarrow> decimals | None \<Rightarrow> 18) \<noteq> None"
    and f2: "formatUnits e 0
               (case symbolDecimals e (tokAddress ti) of
                  Some (symbol, decimals) \<Rightarrow> decimals | None \<Rightarrow> 18) \<noteq> None"
  shows "\<exists>r. recordedFor e ti a s allow r
           \<and> walletAddress r = a \<and> tokenAddress r = tokAddress ti \<and> spenderAddress r = s
           \<and> rawAllowance r = toString allow \<and> rawBalance r = ''0'' \<and> rawExposedAmount r = ''0''"
proof -
  obtain sy d p w1 where rt: "resolveToken e ti = ((sy, d, p), w1)"
    by (metis prod.exhaust)
  have d: "(case symbolDecimals e (tokAddress ti) of
              Some (symbol, decimals) \<Rightarrow> decimals | None \<Rightarrow> 18) = d"
    using resolved_decimals [of e ti] by (simp add: rt)
  have fb: "fst (fetchBalance e (tokAddress ti) sy d a) = 0"
    by (simp add: fetchBalance_def b)
  have "exposureRecord e a (tokAddress ti) sy d p 0 s allow \<noteq> None"
    unfolding exposureRecord_Some_iff using f1 f2 by (simp add: d)
  then obtain r where ex: "exposureRecord e a (tokAddress ti) sy d p 0 s allow = Some r"
    by blast
  note f = exposureRecord_fields [OF ex]
  have "recordedFor e ti a s allow r"
    by (simp add: recordedFor_def n al rt fb ex)
  moreover have "rawExposedAmount r = ''0''"
    by (simp add: f(9) toString_zero)
  ultimately show ?thesis
    using f(1,2,4,5,6) by (auto simp: toString_zero)
qed


lemma basic_failed_reads:
  assumes run: "checkApprovals e addresses tokens spenders = Done st"
  shows "completedTasks st = Num (int (length addresses * length tokens * length spenders))
      \<and> (\<forall>a \<in> set addresses. \<forall>ti \<in> set tokens. \<forall>s \<in> set spenders.
            newContract e (tokAddress ti) \<longrightarrow> allowanceOf e (tokAddress ti) a s = None \<longrightarrow>
            AllowanceWarning a (tokAddress ti) s \<in> set (warnings st))
      \<and> (\<forall>a \<in> set addresses. \<forall>ti \<in> set tokens.
            newContract e (tokAddress ti) \<longrightarrow> balanceOf e (tokAddress ti) a = None \<longrightarrow>
            BalanceWarning a
               (case symbolDecimals e (tokAddress ti) of
                  Some (symbol, decimals) \<Rightarrow> symbol | None \<Rightarrow> unknownSymbol)
              \<in> set (warnings st))
      \<and> (\<forall>r \<in> set (results st).
            allowanceOf e (tokenAddress r) (walletAddress r) (spenderAddress r) \<noteq> None
            \<and> (balanceOf e (tokenAddress r) (walletAddress r) = None \<longrightarrow>
                 rawBalance r = ''0'' \<and> rawExposedAmount r = ''0''))
      \<and> (\<forall>a \<in> set addresses. \<forall>ti \<in> set tokens. \<forall>s \<in> set spenders. \<forall>allow.
            newContract e (tokAddress ti) \<longrightarrow> balanceOf e (tokAddress ti) a = None \<longrightarrow>
            allowanceOf e (tokAddress ti) a s = Some allow \<longrightarrow>
            (allow = MaxUint256 \<or> formatUnits e allow
                     (case symbolDecimals e (tokAddress ti) of
                        Some (symbol, decimals) \<Rightarrow> decimals | None \<Rightarrow> 18) \<noteq> None) \<longrightarrow>
            formatUnits e 0
                     (case symbolDecimals e (tokAddress ti) of
                        Some (symbol, decimals) \<Rightarrow> decimals | None \<Rightarrow> 18) \<noteq> None \<longrightarrow>
            (\<exists>r \<in> set (results st).
               walletAddress r = a \<and> tokenAddress r = tokAddress ti \<and> spenderAddress r = s
               \<and> rawAllowance r = toString allow \<and> rawBalance r = ''0''
               \<and> rawExposedAmount r = ''0''))"
proof (intro conjI)
  show "completedTasks st = Num (int (length addresses * length tokens * length spenders))"
    by (rule completed_basic_total [OF run])
  note w = basic_warnings [OF run]
  from run have "st = foldl (\<lambda>st address. foldl (checkToken e address spenders) st tokens)
                  initialState addresses"
    by (simp add: checkApprovals_def split: if_splits)
  then have rs: "results st =
      concat (map (\<lambda>a. concat (map (\<lambda>ti. concat (map (tripleRecords e a ti) spenders)) tokens)) addresses)"
    by (simp add: results_checkAddresses initialState_def)
  show "\<forall>a \<in> set addresses. \<forall>ti \<in> set tokens. \<forall>s \<in> set spenders.
            newContract e (tokAddress ti) \<longrightarrow> allowanceOf e (tokAddress ti) a s = None \<longrightarrow>
            AllowanceWarning a (tokAddress ti) s \<in> set (warnings st)"
  proof (intro ballI impI)
    fix a ti s
    assume a: "a \<in> set addresses" and ti: "ti \<in> set tokens" and "s \<in> set spenders"
      and "newContract e (tokAddress ti)" and "allowanceOf e (tokAddress ti) a s = None"
    then have "AllowanceWarning a (tokAddress ti) s \<in> set (pairWarnings e a spenders ti)"
      by (intro pairWarnings_allowance)
    with a ti show "AllowanceWarning a (tokAddress ti) s \<in> set (warnings st)"
      by (auto simp: w)
  qed
  show "\<forall>a \<in> set addresses. \<forall>ti \<in> set tokens.
            newContract e (tokAddress ti) \<longrightarrow> balanceOf e (tokAddress ti) a = None \<longrightarrow>
            BalanceWarning a
               (case symbolDecimals e (tokAddress ti) of
                  Some (symbol, decimals) \<Rightarrow> symbol | None \<Rightarrow> unknownSymbol)
              \<in> set (warnings st)"
  proof (intro ballI impI)
    fix a ti
    assume a: "a \<in> set addresses" and ti: "ti \<in> set tokens"
      and "newContract e (tokAddress ti)" and "balanceOf e (tokAddress ti) a = None"
    then have "BalanceWarning a (fst (fst (resolveToken e ti))) \<in> set (pairWarnings e a spenders ti)"
      by (intro pairWarnings_balance)
    with a ti have "BalanceWarning a (fst (fst (resolveToken e ti))) \<in> set (warnings st)"
      by (auto simp: w)
    then show "BalanceWarning a
               (case symbolDecimals e (tokAddress ti) of
                  Some (symbol, decimals) \<Rightarrow> symbol | None \<Rightarrow> unknownSymbol)
              \<in> set (warnings st)"
      by (simp only: resolved_symbol)
  qed
  show "\<forall>r \<in> set (results st).
            allowanceOf e (tokenAddress r) (walletAddress r) (spenderAddress r) \<noteq> None
            \<and> (balanceOf e (tokenAddress r) (walletAddress r) = None \<longrightarrow>
                 rawBalance r = ''0'' \<and> rawExposedAmount r = ''0'')"
  proof
    fix r assume "r \<in> set (results st)"
    from basic_provenance [OF run this] obtain a ti s allow
      where "recordedFor e ti a s allow r" by blast
    from recordedFor_reads [OF this]
    show "allowanceOf e (tokenAddress r) (walletAddress r) (spenderAddress r) \<noteq> None
            \<and> (balanceOf e (tokenAddress r) (walletAddress r) = None \<longrightarrow>
                 rawBalance r = ''0'' \<and> rawExposedAmount r = ''0'')"
      by simp
  qed
  show "\<forall>a \<in> set addresses. \<forall>ti \<in> set tokens. \<forall>s \<in> set spenders. \<forall>allow.
            newContract e (tokAddress ti) \<longrightarrow> balanceOf e (tokAddress ti) a = None \<longrightarrow>
            allowanceOf e (tokAddress ti) a s = Some allow \<longrightarrow>
            (allow = MaxUint256 \<or> formatUnits e allow
                     (case symbolDecimals e (tokAddress ti) of
                        Some (symbol, decimals) \<Rightarrow> decimals | None \<Rightarrow> 18) \<noteq> None) \<longrightarrow>
            formatUnits e 0
                     (case symbolDecimals e (tokAddress ti) of
                        Some (symbol, decimals) \<Rightarrow> decimals | None \<Rightarrow> 18) \<noteq> None \<longrightarrow>
            (\<exists>r \<in> set (results st).
               walletAddress r = a \<and> tokenAddress r = tokAddress ti \<and> spenderAddress r = s
               \<and> rawAllowance r = toString allow \<and> rawBalance r = ''0''
               \<and> rawExposedAmount r = ''0'')"
  proof (intro ballI allI impI)
    fix a ti s allow
    assume a: "a \<in> set addresses" and ti: "ti \<in> set tokens" and s: "s \<in> set spenders"
      and h: "newContract e (tokAddress ti)" "balanceOf e (tokAddress ti) a = None"
        "allowanceOf e (tokAddress ti) a s = Some allow"
        "allow = MaxUint256 \<or> formatUnits e allow
                     (case symbolDecimals e (tokAddress ti) of
                        Some (symbol, decimals) \<Rightarrow> decimals | None \<Rightarrow> 18) \<noteq> None"
        "formatUnits e 0
                     (case symbolDecimals e (tokAddress ti) of
                        Some (symbol, decimals) \<Rightarrow> decimals | None \<Rightarrow> 18) \<noteq> None"
    from recordedFor_unread_balance [OF h] obtain r where rf: "recordedFor e ti a s allow r"
      and fs: "walletAddress r = a \<and> tokenAddress r = tokAddress ti \<and> spenderAddress r = s
               \<and> rawAllowance r = toString allow \<and> rawBalance r = ''0''
               \<and> rawExposedAmount r = ''0''"
      by blast
    from rf have "r \<in> set (tripleRecords e a ti s)"
      unfolding tripleRecords_recordedFor by blast
    with a ti s have "r \<in> set (results st)"
      unfolding rs by auto
    with fs show "\<exists>r \<in> set (results st).
               walletAddress r = a \<and> tokenAddress r = tokAddress ti \<and> spenderAddress r = s
               \<and> rawAllowance r = toString allow \<and> rawBalance r = ''0''
               \<and> rawExposedAmount r = ''0''"
      by blast
  qed
qed

lemma advanced_failed_reads:
  assumes run: "findAndCheckApprovals e addresses tokens lookbackBlocks = Done st"
    and g: "getBlockNumber e = Some cb" and sb: "sb = max 0 (cb - lookbackBlocks)"
  shows "(addresses \<noteq> [] \<longrightarrow>
              completedTasks st = Num (int (length tokens * length addresses)))
        \<and> (\<forall>ti \<in> set tokens. \<forall>a \<in> set addresses.
              newContract e (tokAddress ti) \<longrightarrow>
              queryFilter e (tokAddress ti) a sb cb = None \<longrightarrow>
              EventsWarning a \<in> set (warnings st))
        \<and> (\<forall>ti \<in> set tokens. \<forall>a \<in> set addresses. \<forall>events.
              queryFilter e (tokAddress ti) a sb cb = Some events \<longrightarrow>
              (\<forall>s \<in> set events.
                 newContract e (tokAddress ti) \<longrightarrow> allowanceOf e (tokAddress ti) a s = None \<longrightarrow>
                 AllowanceWarning a (tokAddress ti) s \<in> set (warnings st)))
        \<and> (\<forall>ti \<in> set tokens. \<forall>a \<in> set addresses.
              newContract e (tokAddress ti) \<longrightarrow> balanceOf e (tokAddress ti) a = None \<longrightarrow>
              BalanceWarning a
                 (case symbolDecimals e (tokAddress ti) of
                  Some (symbol, decimals) \<Rightarrow> symbol | None \<Rightarrow> unknownSymbol)
                \<in> set (warnings st))
        \<and> (\<forall>r \<in> set (results st).
              allowanceOf e (tokenAddress r) (walletAddress r) (spenderAddress r) \<noteq> None
              \<and> queryFilter e (tokenAddress r) (walletAddress r) sb cb \<noteq> None
              \<and> (balanceOf e (tokenAddress r) (walletAddress r) = None \<longrightarrow>
                   rawBalance r = ''0'' \<and> rawExposedAmount r = ''0''))
        \<and> (\<forall>ti \<in> set tokens. \<forall>a \<in> set addresses. \<forall>events.
              queryFilter e (tokAddress ti) a sb cb = Some events \<longrightarrow>
              (\<forall>s \<in> set events. \<forall>allow.
                 newContract e (tokAddress ti) \<longrightarrow> balanceOf e (tokAddress ti) a = None \<longrightarrow>
                 allowanceOf e (tokAddress ti) a s = Some allow \<longrightarrow> allow \<noteq> 0 \<longrightarrow>
                 (allow = MaxUint256 \<or> formatUnits e allow
                     (case symbolDecimals e (tokAddress ti) of
                        Some (symbol, decimals) \<Rightarrow> decimals | None \<Rightarrow> 18) \<noteq> None) \<longrightarrow>
                 formatUnits e 0
                     (case symbolDecimals e (tokAddress ti) of
                        Some (symbol, decimals) \<Rightarrow> decimals | None \<Rightarrow> 18) \<noteq> None \<longrightarrow>
                 (\<exists>r \<in> set (results st).
                    walletAddress r = a \<and> tokenAddress r = tokAddress ti \<and> spenderAddress r = s
                    \<and> rawAllowance r = toString allow \<and> rawBalance r = ''0''
                    \<and> rawExposedAmount r = ''0'')))"
proof (intro conjI)
  from advanced_warnings [OF run] g sb
  have w: "warnings st = concat (map (tokenWarnings e addresses sb cb) tokens)"
    by simp
  from advanced_results [OF run] g sb
  have rs: "results st = concat (map (\<lambda>ti. concat (map
        (walletRecords e ti sb cb) addresses)) tokens)"
    by simp
  show "addresses \<noteq> [] \<longrightarrow> completedTasks st = Num (int (length tokens * length addresses))"
    using completed_advanced_total [OF run] by blast
  show "\<forall>ti \<in> set tokens. \<forall>a \<in> set addresses.
              newContract e (tokAddress ti) \<longrightarrow>
              queryFilter e (tokAddress ti) a sb cb = None \<longrightarrow>
              EventsWarning a \<in> set (warnings st)"
  proof (intro ballI impI)
    fix ti a
    assume ti: "ti \<in> set tokens" and "a \<in> set addresses" and "newContract e (tokAddress ti)"
      and "queryFilter e (tokAddress ti) a sb cb = None"
    then have "EventsWarning a \<in> set (tokenWarnings e addresses sb cb ti)"
      by (intro tokenWarnings_events)
    with ti show "EventsWarning a \<in> set (warnings st)"
      by (auto simp: w)
  qed
  show "\<forall>ti \<in> set tokens. \<forall>a \<in> set addresses. \<forall>events.
              queryFilter e (tokAddress ti) a sb cb = Some events \<longrightarrow>
              (\<forall>s \<in> set events.
                 newContract e (tokAddress ti) \<longrightarrow> allowanceOf e (tokAddress ti) a s = None \<longrightarrow>
                 AllowanceWarning a (tokAddress ti) s \<in> set (warnings st))"
  proof (intro ballI allI impI)
    fix ti a events s
    assume ti: "ti \<in> set tokens" and a: "a \<in> set addresses"
      and q: "queryFilter e (tokAddress ti) a sb cb = Some events" and s: "s \<in> set events"
      and n: "newContract e (tokAddress ti)"
      and al: "allowanceOf e (tokAddress ti) a s = None"
    from q s have "s \<in> set (discoveredSpenders e ti sb cb a)"
      by (simp add: set_discoveredSpenders)
    with n a al have "AllowanceWarning a (tokAddress ti) s \<in> set (tokenWarnings e addresses sb cb ti)"
      by (intro tokenWarnings_allowance)
    with ti show "AllowanceWarning a (tokAddress ti) s \<in> set (warnings st)"
      by (auto simp: w)
  qed
  show "\<forall>ti \<in> set tokens. \<forall>a \<in> set addresses.
              newContract e (tokAddress ti) \<longrightarrow> balanceOf e (tokAddress ti) a = None \<longrightarrow>
              BalanceWarning a
                 (case symbolDecimals e (tokAddress ti) of
                  Some (symbol, decimals) \<Rightarrow> symbol | None \<Rightarrow> unknownSymbol)
                \<in> set (warnings st)"
  proof (intro ballI impI)
    fix ti a
    assume ti: "ti \<in> set tokens" and "a \<in> set addresses"
      and "newContract e (tokAddress ti)" and "balanceOf e (tokAddress ti) a = None"
    then have "BalanceWarning a (fst (fst (resolveToken e ti))) \<in> set (tokenWarnings e addresses sb cb ti)"
      by (intro tokenWarnings_balance)
    with ti have "BalanceWarning a (fst (fst (resolveToken e ti))) \<in> set (warnings st)"
      by (auto simp: w)
    then show "BalanceWarning a
               (case symbolDecimals e (tokAddress ti) of
                  Some (symbol, decimals) \<Rightarrow> symbol | None \<Rightarrow> unknownSymbol)
              \<in> set (warnings st)"
      by (simp only: resolved_symbol)
  qed
  show "\<forall>r \<in> set (results st).
              allowanceOf e (tokenAddress r) (walletAddress r) (spenderAddress r) \<noteq> None
              \<and> queryFilter e (tokenAddress r) (walletAddress r) sb cb \<noteq> None
              \<and> (balanceOf e (tokenAddress r) (walletAddress r) = None \<longrightarrow>
                   rawBalance r = ''0'' \<and> rawExposedAmount r = ''0'')"
  proof
    fix r assume "r \<in> set (results st)"
    with rs obtain ti a where "r \<in> set (walletRecords e ti sb cb a)" by auto
    then obtain events s allow
      where q: "queryFilter e (tokAddress ti) a sb cb = Some events"
        and rf: "recordedFor e ti a s allow r"
      unfolding walletRecords_recordedFor by blast
    from recordedFor_exposure [OF rf] obtain sy d p b
      where ex: "exposureRecord e a (tokAddress ti) sy d p b s allow = Some r"
      by blast
    note f = exposureRecord_fields [OF ex]
    from q have "queryFilter e (tokenAddress r) (walletAddress r) sb cb \<noteq> None"
      by (simp add: f(1,2))
    with recordedFor_reads [OF rf]
    show "allowanceOf e (tokenAddress r) (walletAddress r) (spenderAddress r) \<noteq> None
              \<and> queryFilter e (tokenAddress r) (walletAddress r) sb cb \<noteq> None
              \<and> (balanceOf e (tokenAddress r) (walletAddress r) = None \<longrightarrow>
                   rawBalance r = ''0'' \<and> rawExposedAmount r = ''0'')"
      by simp
  qed
  show "\<forall>ti \<in> set tokens. \<forall>a \<in> set addresses. \<forall>events.
              queryFilter e (tokAddress ti) a sb cb = Some events \<longrightarrow>
              (\<forall>s \<in> set events. \<forall>allow.
                 newContract e (tokAddress ti) \<longrightarrow> balanceOf e (tokAddress ti) a = None \<longrightarrow>
                 allowanceOf e (tokAddress ti) a s = Some allow \<longrightarrow> allow \<noteq> 0 \<longrightarrow>
                 (allow = MaxUint256 \<or> formatUnits e allow
                     (case symbolDecimals e (tokAddress ti) of
                        Some (symbol, decimals) \<Rightarrow> decimals | None \<Rightarrow> 18) \<noteq> None) \<longrightarrow>
                 formatUnits e 0
                     (case symbolDecimals e (tokAddress ti) of
                        Some (symbol, decimals) \<Rightarrow> decimals | None \<Rightarrow> 18) \<noteq> None \<longrightarrow>
                 (\<exists>r \<in> set (results st).
                    walletAddress r = a \<and> tokenAddress r = tokAddress ti \<and> spenderAddress r = s
                    \<and> rawAllowance r = toString allow \<and> rawBalance r = ''0''
                    \<and> rawExposedAmount r = ''0''))"
  proof (intro ballI allI impI)
    fix ti a events s allow
    assume ti: "ti \<in> set tokens" and a: "a \<in> set addresses"
      and q: "queryFilter e (tokAddress ti) a sb cb = Some events" and s: "s \<in> set events"
      and h: "newContract e (tokAddress ti)" "balanceOf e (tokAddress ti) a = None"
        "allowanceOf e (tokAddress ti) a s = Some allow"
      and nz: "allow \<noteq> 0"
      and h': "allow = MaxUint256 \<or> formatUnits e allow
                     (case symbolDecimals e (tokAddress ti) of
                        Some (symbol, decimals) \<Rightarrow> decimals | None \<Rightarrow> 18) \<noteq> None"
        "formatUnits e 0
                     (case symbolDecimals e (tokAddress ti) of
                        Some (symbol, decimals) \<Rightarrow> decimals | None \<Rightarrow> 18) \<noteq> None"
    from recordedFor_unread_balance [OF h h'] obtain r where rf: "recordedFor e ti a s allow r"
      and fs: "walletAddress r = a \<and> tokenAddress r = tokAddress ti \<and> spenderAddress r = s
               \<and> rawAllowance r = toString allow \<and> rawBalance r = ''0''
               \<and> rawExposedAmount r = ''0''"
      by blast
    from rf q s nz have "r \<in> set (walletRecords e ti sb cb a)"
      unfolding walletRecords_recordedFor by blast
    with a ti have "r \<in> set (results st)"
      unfolding rs by auto
    with fs show "\<exists>r \<in> set (results st).
               walletAddress r = a \<and> tokenAddress r = tokAddress ti \<and> spenderAddress r = s
               \<and> rawAllowance r = toString allow \<and> rawBalance r = ''0''
               \<and> rawExposedAmount r = ''0''"
      by blast
  qed
qed

text \<open>
  C6. A failed allowance read, in either mode, and a failed event query, in advanced mode,
  are logged as warnings and leave no record for the item; the run goes on to its end (it
  returns whenever the spender list is not empty, respectively the block height is read),
  and ends with the counter at the number of tasks. A failed balance read is logged too, in
  both modes, but the item is not skipped: the balance is taken to be zero, and every
  triple of the wallet whose allowance is read and formatted still has its record, with
  raw balance and raw exposed amount \<open>0\<close> (in advanced mode: every discovered spender with
  a non-zero allowance).
\<close>

theorem failed_reads_logged_and_counted:
  "(checkApprovals e addresses tokens spenders = Done st \<longrightarrow>
      completedTasks st = Num (int (length addresses * length tokens * length spenders))
      \<and> (\<forall>a \<in> set addresses. \<forall>ti \<in> set tokens. \<forall>s \<in> set spenders.
            newContract e (tokAddress ti) \<longrightarrow> allowanceOf e (tokAddress ti) a s = None \<longrightarrow>
            AllowanceWarning a (tokAddress ti) s \<in> set (warnings st))
      \<and> (\<forall>a \<in> set addresses. \<forall>ti \<in> set tokens.
            newContract e (tokAddress ti) \<longrightarrow> balanceOf e (tokAddress ti) a = None \<longrightarrow>
            BalanceWarning a
               (case symbolDecimals e (tokAddress ti) of
                  Some (symbol, decimals) \<Rightarrow> symbol | None \<Rightarrow> unknownSymbol)
              \<in> set (warnings st))
      \<and> (\<forall>r \<in> set (results st).
            allowanceOf e (tokenAddress r) (walletAddress r) (spenderAddress r) \<noteq> None
            \<and> (balanceOf e (tokenAddress r) (walletAddress r) = None \<longrightarrow>
                 rawBalance r = ''0'' \<and> rawExposedAmount r = ''0''))
      \<and> (\<forall>a \<in> set addresses. \<forall>ti \<in> set tokens. \<forall>s \<in> set spenders. \<forall>allow.
            newContract e (tokAddress ti) \<longrightarrow> balanceOf e (tokAddress ti) a = None \<longrightarrow>
            allowanceOf e (tokAddress ti) a s = Some allow \<longrightarrow>
            (allow = MaxUint256 \<or> formatUnits e allow
                     (case symbolDecimals e (tokAddress ti) of
                        Some (symbol, decimals) \<Rightarrow> decimals | None \<Rightarrow> 18) \<noteq> None) \<longrightarrow>
            formatUnits e 0
                     (case symbolDecimals e (tokAddress ti) of
                        Some (symbol, decimals) \<Rightarrow> decimals | None \<Rightarrow> 18) \<noteq> None \<longrightarrow>
            (\<exists>r \<in> set (results st).
               walletAddress r = a \<and> tokenAddress r = tokAddress ti \<and> spenderAddress r = s
               \<and> rawAllowance r = toString allow \<and> rawBalance r = ''0''
               \<and> rawExposedAmount r = ''0'')))
   \<and> (spenders \<noteq> [] \<longrightarrow> (\<exists>st. checkApprovals e addresses tokens spenders = Done st))
   \<and> (findAndCheckApprovals e addresses tokens lookbackBlocks = Done st' \<longrightarrow>
      (\<exists>currentBlock startBlock.
          getBlockNumber e = Some currentBlock \<and> startBlock = max 0 (currentBlock - lookbackBlocks)
        \<and> (addresses \<noteq> [] \<longrightarrow>
              completedTasks st' = Num (int (length tokens * length addresses)))
        \<and> (\<forall>ti \<in> set tokens. \<forall>a \<in> set addresses.
              newContract e (tokAddress ti) \<longrightarrow>
              queryFilter e (tokAddress ti) a startBlock currentBlock = None \<longrightarrow>
              EventsWarning a \<in> set (warnings st'))
        \<and> (\<forall>ti \<in> set tokens. \<forall>a \<in> set addresses. \<forall>events.
              queryFilter e (tokAddress ti) a startBlock currentBlock = Some events \<longrightarrow>
              (\<forall>s \<in> set events.
                 newContract e (tokAddress ti) \<longrightarrow> allowanceOf e (tokAddress ti) a s = None \<longrightarrow>
                 AllowanceWarning a (tokAddress ti) s \<in> set (warnings st')))
        \<and> (\<forall>ti \<in> set tokens. \<forall>a \<in> set addresses.
              newContract e (tokAddress ti) \<longrightarrow> balanceOf e (tokAddress ti) a = None \<longrightarrow>
              BalanceWarning a
                 (case symbolDecimals e (tokAddress ti) of
                  Some (symbol, decimals) \<Rightarrow> symbol | None \<Rightarrow> unknownSymbol)
                \<in> set (warnings st'))
        \<and> (\<forall>r \<in> set (results st').
              allowanceOf e (tokenAddress r) (walletAddress r) (spenderAddress r) \<noteq> None
              \<and> queryFilter e (tokenAddress r) (walletAddress r) startBlock currentBlock \<noteq> None
              \<and> (balanceOf e (tokenAddress r) (walletAddress r) = None \<longrightarrow>
                   rawBalance r = ''0'' \<and> rawExposedAmount r = ''0''))
        \<and> (\<forall>ti \<in> set tokens. \<forall>a \<in> set addresses. \<forall>events.
              queryFilter e (tokAddress ti) a startBlock currentBlock = Some events \<longrightarrow>
              (\<forall>s \<in> set events. \<forall>allow.
                 newContract e (tokAddress ti) \<longrightarrow> balanceOf e (tokAddress ti) a = None \<longrightarrow>
                 allowanceOf e (tokAddress ti) a s = Some allow \<longrightarrow> allow \<noteq> 0 \<longrightarrow>
                 (allow = MaxUint256 \<or> formatUnits e allow
                     (case symbolDecimals e (tokAddress ti) of
                        Some (symbol, decimals) \<Rightarrow> decimals | None \<Rightarrow> 18) \<noteq> None) \<longrightarrow>
                 formatUnits e 0
                     (case symbolDecimals e (tokAddress ti) of
                        Some (symbol, decimals) \<Rightarrow> decimals | None \<Rightarrow> 18) \<noteq> None \<longrightarrow>
                 (\<exists>r \<in> set (results st').
                    walletAddress r = a \<and> tokenAddress r = tokAddress ti \<and> spenderAddress r = s
                    \<and> rawAllowance r = toString allow \<and> rawBalance r = ''0''
                    \<and> rawExposedAmount r = ''0'')))))
   \<and> (getBlockNumber e \<noteq> None \<longrightarrow>
        (\<exists>st. findAndCheckApprovals e addresses tokens lookbackBlocks = Done st))"
proof (intro conjI)
  show "checkApprovals e addresses tokens spenders = Done st \<longrightarrow>
      completedTasks st = Num (int (length addresses * length tokens * length spenders))
      \<and> (\<forall>a \<in> set addresses. \<forall>ti \<in> set tokens. \<forall>s \<in> set spenders.
            newContract e (tokAddress ti) \<longrightarrow> allowanceOf e (tokAddress ti) a s = None \<longrightarrow>
            AllowanceWarning a (tokAddress ti) s \<in> set (warnings st))
      \<and> (\<forall>a \<in> set addresses. \<forall>ti \<in> set tokens.
            newContract e (tokAddress ti) \<longrightarrow> balanceOf e (tokAddress ti) a = None \<longrightarrow>
            BalanceWarning a
               (case symbolDecimals e (tokAddress ti) of
                  Some (symbol, decimals) \<Rightarrow> symbol | None \<Rightarrow> unknownSymbol)
              \<in> set (warnings st))
      \<and> (\<forall>r \<in> set (results st).
            allowanceOf e (tokenAddress r) (walletAddress r) (spenderAddress r) \<noteq> None
            \<and> (balanceOf e (tokenAddress r) (walletAddress r) = None \<longrightarrow>
                 rawBalance r = ''0'' \<and> rawExposedAmount r = ''0''))
      \<and> (\<forall>a \<in> set addresses. \<forall>ti \<in> set tokens. \<forall>s \<in> set spenders. \<forall>allow.
            newContract e (tokAddress ti) \<longrightarrow> balanceOf e (tokAddress ti) a = None \<longrightarrow>
            allowanceOf e (tokAddress ti) a s = Some allow \<longrightarrow>
            (allow = MaxUint256 \<or> formatUnits e allow
                     (case symbolDecimals e (tokAddress ti) of
                        Some (symbol, decimals) \<Rightarrow> decimals | None \<Rightarrow> 18) \<noteq> None) \<longrightarrow>
            formatUnits e 0
                     (case symbolDecimals e (tokAddress ti) of
                        Some (symbol, decimals) \<Rightarrow> decimals | None \<Rightarrow> 18) \<noteq> None \<longrightarrow>
            (\<exists>r \<in> set (results st).
               walletAddress r = a \<and> tokenAddress r = tokAddress ti \<and> spenderAddress r = s
               \<and> rawAllowance r = toString allow \<and> rawBalance r = ''0''
               \<and> rawExposedAmount r = ''0''))"
    using basic_failed_reads [of e addresses tokens spenders st] by (intro impI)
  show "spenders \<noteq> [] \<longrightarrow> (\<exists>st. checkApprovals e addresses tokens spenders = Done st)"
    by (simp add: checkApprovals_def)
  show "getBlockNumber e \<noteq> None \<longrightarrow>
        (\<exists>st. findAndCheckApprovals e addresses tokens lookbackBlocks = Done st)"
    by (auto simp: findAndCheckApprovals_def Let_def)
  show "findAndCheckApprovals e addresses tokens lookbackBlocks = Done st' \<longrightarrow>
      (\<exists>currentBlock startBlock.
          getBlockNumber e = Some currentBlock \<and> startBlock = max 0 (currentBlock - lookbackBlocks)
        \<and> (addresses \<noteq> [] \<longrightarrow>
              completedTasks st' = Num (int (length tokens * length addresses)))
        \<and> (\<forall>ti \<in> set tokens. \<forall>a \<in> set addresses.
              newContract e (tokAddress ti) \<longrightarrow>
              queryFilter e (tokAddress ti) a startBlock currentBlock = None \<longrightarrow>
              EventsWarning a \<in> set (warnings st'))
        \<and> (\<forall>ti \<in> set tokens. \<forall>a \<in> set addresses. \<forall>events.
              queryFilter e (tokAddress ti) a startBlock currentBlock = Some events \<longrightarrow>
              (\<forall>s \<in> set events.
                 newContract e (tokAddress ti) \<longrightarrow> allowanceOf e (tokAddress ti) a s = None \<longrightarrow>
                 AllowanceWarning a (tokAddress ti) s \<in> set (warnings st')))
        \<and> (\<forall>ti \<in> set tokens. \<forall>a \<in> set addresses.
              newContract e (tokAddress ti) \<longrightarrow> balanceOf e (tokAddress ti) a = None \<longrightarrow>
              BalanceWarning a
                 (case symbolDecimals e (tokAddress ti) of
                  Some (symbol, decimals) \<Rightarrow> symbol | None \<Rightarrow> unknownSymbol)
                \<in> set (warnings st'))
        \<and> (\<forall>r \<in> set (results st').
              allowanceOf e (tokenAddress r) (walletAddress r) (spenderAddress r) \<noteq> None
              \<and> queryFilter e (tokenAddress r) (walletAddress r) startBlock currentBlock \<noteq> None
              \<and> (balanceOf e (tokenAddress r) (walletAddress r) = None \<longrightarrow>
                   rawBalance r = ''0'' \<and> rawExposedAmount r = ''0''))
        \<and> (\<forall>ti \<in> set tokens. \<forall>a \<in> set addresses. \<forall>events.
              queryFilter e (tokAddress ti) a startBlock currentBlock = Some events \<longrightarrow>
              (\<forall>s \<in> set events. \<forall>allow.
                 newContract e (tokAddress ti) \<longrightarrow> balanceOf e (tokAddress ti) a = None \<longrightarrow>
                 allowanceOf e (tokAddress ti) a s = Some allow \<longrightarrow> allow \<noteq> 0 \<longrightarrow>
                 (allow = MaxUint256 \<or> formatUnits e allow
                     (case symbolDecimals e (tokAddress ti) of
                        Some (symbol, decimals) \<Rightarrow> decimals | None \<Rightarrow> 18) \<noteq> None) \<longrightarrow>
                 formatUnits e 0
                     (case symbolDecimals e (tokAddress ti) of
                        Some (symbol, decimals) \<Rightarrow> decimals | None \<Rightarrow> 18) \<noteq> None \<longrightarrow>
                 (\<exists>r \<in> set (results st').
                    walletAddress r = a \<and> tokenAddress r = tokAddress ti \<and> spenderAddress r = s
                    \<and> rawAllowance r = toString allow \<and> rawBalance r = ''0''
                    \<and> rawExposedAmount r = ''0''))))"
  proof
    assume run: "findAndCheckApprovals e addresses tokens lookbackBlocks = Done st'"
    then obtain cb where g: "getBlockNumber e = Some cb"
      by (auto simp: findAndCheckApprovals_def split: option.splits)
    note a = advanced_failed_reads [OF run g refl]
    show "\<exists>currentBlock startBlock.
          getBlockNumber e = Some currentBlock \<and> startBlock = max 0 (currentBlock - lookbackBlocks)
        \<and> (addresses \<noteq> [] \<longrightarrow>
              completedTasks st' = Num (int (length tokens * length addresses)))
        \<and> (\<forall>ti \<in> set tokens. \<forall>a \<in> set addresses.
              newContract e (tokAddress ti) \<longrightarrow>
              queryFilter e (tokAddress ti) a startBlock currentBlock = None \<longrightarrow>
              EventsWarning a \<in> set (warnings st'))
        \<and> (\<forall>ti \<in> set tokens. \<forall>a \<in> set addresses. \<forall>events.
              queryFilter e (tokAddress ti) a startBlock currentBlock = Some events \<longrightarrow>
              (\<forall>s \<in> set events.
                 newContract e (tokAddress ti) \<longrightarrow> allowanceOf e (tokAddress ti) a s = None \<longrightarrow>
                 AllowanceWarning a (tokAddress ti) s \<in> set (warnings st')))
        \<and> (\<forall>ti \<in> set tokens. \<forall>a \<in> set addresses.
              newContract e (tokAddress ti) \<longrightarrow> balanceOf e (tokAddress ti) a = None \<longrightarrow>
              BalanceWarning a
                 (case symbolDecimals e (tokAddress ti) of
                  Some (symbol, decimals) \<Rightarrow> symbol | None \<Rightarrow> unknownSymbol)
                \<in> set (warnings st'))
        \<and> (\<forall>r \<in> set (results st').
              allowanceOf e (tokenAddress r) (walletAddress r) (spenderAddress r) \<noteq> None
              \<and> queryFilter e (tokenAddress r) (walletAddress r) startBlock currentBlock \<noteq> None
              \<and> (balanceOf e (tokenAddress r) (walletAddress r) = None \<longrightarrow>
                   rawBalance r = ''0'' \<and> rawExposedAmount r = ''0''))
        \<and> (\<forall>ti \<in> set tokens. \<forall>a \<in> set addresses. \<forall>events.
              queryFilter e (tokAddress ti) a startBlock currentBlock = Some events \<longrightarrow>
              (\<forall>s \<in> set events. \<forall>allow.
                 newContract e (tokAddress ti) \<longrightarrow> balanceOf e (tokAddress ti) a = None \<longrightarrow>
                 allowanceOf e (tokAddress ti) a s = Some allow \<longrightarrow> allow \<noteq> 0 \<longrightarrow>
                 (allow = MaxUint256 \<or> formatUnits e allow
                     (case symbolDecimals e (tokAddress ti) of
                        Some (symbol, decimals) \<Rightarrow> decimals | None \<Rightarrow> 18) \<noteq> None) \<longrightarrow>
                 formatUnits e 0
                     (case symbolDecimals e (tokAddress ti) of
                        Some (symbol, decimals) \<Rightarrow> decimals | None \<Rightarrow> 18) \<noteq> None \<longrightarrow>
                 (\<exists>r \<in> set (results st').
                    walletAddress r = a \<and> tokenAddress r = tokAddress ti \<and> spenderAddress r = s
                    \<and> rawAllowance r = toString allow \<and> rawBalance r = ''0''
                    \<and> rawExposedAmount r = ''0'')))"
      by (rule exI [of _ cb], rule exI [of _ "max 0 (cb - lookbackBlocks)"])
         (rule conjI [OF g], rule conjI [OF refl], rule a)
  qed
qed


lemma demo_exposure_unread:
  "exposureRecord noBalanceEnv a ''T'' ''USDT'' 0 (Some 1) 0 s allow = Some (unreadRecord a s allow)"
proof -
  have f: "formatUnits noBalanceEnv v 0 = Some (toString v)" for v
    by (simp add: noBalanceEnv_def demoEnv_def)
  have z: "toString 0 = ''0''" by code_simp
  have u: "fmul noBalanceEnv (parseFloat noBalanceEnv ''0'') 1 = 0"
    by (simp add: noBalanceEnv_def demoEnv_def parseBigInt_def digitValue_def)
  show ?thesis
    by (simp add: exposureRecord_def Let_def f z u toString_inject unreadRecord_def)
qed

lemma demo_advanced_run_unread_balance:
  "findAndCheckApprovals noBalanceEnv [''A''] [usdtLine] 50 =
     Done \<lparr> results = [unreadRecord ''A'' ''S'' 1000, unreadRecord ''A'' ''M'' MaxUint256],
            completedTasks = Num 1, warnings = [BalanceWarning ''A'' ''USDT''] \<rparr>"
proof -
  have t: "tokAddress usdtLine = ''T''" by (simp add: usdtLine_def)
  have n: "newContract noBalanceEnv ''T''" by (simp add: noBalanceEnv_def demoEnv_def)
  have g: "getBlockNumber noBalanceEnv = Some 100" by (simp add: noBalanceEnv_def demoEnv_def)
  have q: "queryFilter noBalanceEnv ''T'' ''A'' 50 100 = Some [''S'', ''M'', ''S'', ''Z'']"
    by (simp add: noBalanceEnv_def demoEnv_def)
  have r: "resolveToken noBalanceEnv usdtLine = ((''USDT'', 0, Some 1), [])"
    by (simp add: resolveToken_def noBalanceEnv_def demoEnv_def usdtLine_def stablecoins_def)
  have b: "fetchBalance noBalanceEnv ''T'' ''USDT'' 0 ''A'' = (0, [BalanceWarning ''A'' ''USDT''])"
    by (simp add: fetchBalance_def noBalanceEnv_def demoEnv_def)
  have al: "allowanceOf noBalanceEnv t a s = allowanceOf demoEnv t a s" for t a s
    by (simp add: noBalanceEnv_def)
  have m: "MaxUint256 \<noteq> 0" "1000 \<noteq> (0::nat)" by (simp_all add: MaxUint256_def)
  have c: "checkDiscovered noBalanceEnv ''A'' ''T'' ''USDT'' 0 (Some 1) 0 ''S''
             = ([unreadRecord ''A'' ''S'' 1000], [])"
    "checkDiscovered noBalanceEnv ''A'' ''T'' ''USDT'' 0 (Some 1) 0 ''M''
             = ([unreadRecord ''A'' ''M'' MaxUint256], [])"
    "checkDiscovered noBalanceEnv ''A'' ''T'' ''USDT'' 0 (Some 1) 0 ''Z'' = ([], [])"
    by (simp_all add: checkDiscovered_def al demo_allowances toString_zero demo_exposure_unread m)
  show ?thesis
    by (simp add: findAndCheckApprovals_def findToken_def g t n q r b
          demo_batches1 addressTask_def c initialState_def Let_def)
qed


theorem failed_reads_logged_and_counted_witness:
  "checkApprovals demoEnv [''A''] [usdtLine] [''S'', ''Z'', ''Q''] =
     Done \<lparr> results = [demoRecord ''T'' ''USDT'' ''S'' 1000 500 (Some 1),
                        demoRecord ''T'' ''USDT'' ''Z'' 0 0 (Some 1)],
            completedTasks = Num 3, warnings = [AllowanceWarning ''A'' ''T'' ''Q''] \<rparr>
   \<and> allowanceOf demoEnv ''T'' ''A'' ''Q'' = None
   \<and> AllowanceWarning ''A'' ''T'' ''Q''
        \<in> set (warnings \<lparr> results = [demoRecord ''T'' ''USDT'' ''S'' 1000 500 (Some 1),
                        demoRecord ''T'' ''USDT'' ''Z'' 0 0 (Some 1)],
            completedTasks = Num 3, warnings = [AllowanceWarning ''A'' ''T'' ''Q''] \<rparr>)
   \<and> checkApprovals demoEnv [''B''] [usdtLine] [''S''] =
     Done \<lparr> results = [unreadRecord ''B'' ''S'' 1000], completedTasks = Num 1,
            warnings = [BalanceWarning ''B'' ''USDT''] \<rparr>
   \<and> balanceOf demoEnv ''T'' ''B'' = None
   \<and> BalanceWarning ''B'' ''USDT''
        \<in> set (warnings \<lparr> results = [unreadRecord ''B'' ''S'' 1000], completedTasks = Num 1,
            warnings = [BalanceWarning ''B'' ''USDT''] \<rparr>)
   \<and> (\<exists>r \<in> set (results \<lparr> results = [unreadRecord ''B'' ''S'' 1000], completedTasks = Num 1,
            warnings = [BalanceWarning ''B'' ''USDT''] \<rparr>).
          walletAddress r = ''B'' \<and> tokenAddress r = ''T'' \<and> spenderAddress r = ''S''
          \<and> rawAllowance r = ''1000'' \<and> rawBalance r = ''0'' \<and> rawExposedAmount r = ''0'')
   \<and> findAndCheckApprovals demoEnv [''B''] [usdtLine] 50 =
     Done \<lparr> results = [], completedTasks = Num 1,
            warnings = [BalanceWarning ''B'' ''USDT'', EventsWarning ''B''] \<rparr>
   \<and> queryFilter demoEnv ''T'' ''B'' 50 100 = None
   \<and> EventsWarning ''B''
        \<in> set (warnings \<lparr> results = [], completedTasks = Num 1,
            warnings = [BalanceWarning ''B'' ''USDT'', EventsWarning ''B''] \<rparr>)
   \<and> findAndCheckApprovals noBalanceEnv [''A''] [usdtLine] 50 =
     Done \<lparr> results = [unreadRecord ''A'' ''S'' 1000, unreadRecord ''A'' ''M'' MaxUint256],
            completedTasks = Num 1, warnings = [BalanceWarning ''A'' ''USDT''] \<rparr>
   \<and> balanceOf noBalanceEnv ''T'' ''A'' = None
   \<and> BalanceWarning ''A'' ''USDT''
        \<in> set (warnings \<lparr> results = [unreadRecord ''A'' ''S'' 1000, unreadRecord ''A'' ''M'' MaxUint256],
            completedTasks = Num 1, warnings = [BalanceWarning ''A'' ''USDT''] \<rparr>)
   \<and> (\<exists>r \<in> set (results \<lparr> results = [unreadRecord ''A'' ''S'' 1000, unreadRecord ''A'' ''M'' MaxUint256],
            completedTasks = Num 1, warnings = [BalanceWarning ''A'' ''USDT''] \<rparr>).
          walletAddress r = ''A'' \<and> tokenAddress r = ''T'' \<and> spenderAddress r = ''M''
          \<and> rawAllowance r = toString MaxUint256 \<and> rawBalance r = ''0''
          \<and> rawExposedAmount r = ''0'')"
proof -
  let ?z = "\<lparr> results = [demoRecord ''T'' ''USDT'' ''S'' 1000 500 (Some 1),
                        demoRecord ''T'' ''USDT'' ''Z'' 0 0 (Some 1)],
            completedTasks = Num 3, warnings = [AllowanceWarning ''A'' ''T'' ''Q''] \<rparr>"
  let ?u = "\<lparr> results = [unreadRecord ''B'' ''S'' 1000], completedTasks = Num 1,
            warnings = [BalanceWarning ''B'' ''USDT''] \<rparr>"
  let ?q = "\<lparr> results = [], completedTasks = Num 1,
            warnings = [BalanceWarning ''B'' ''USDT'', EventsWarning ''B''] \<rparr>"
  let ?n = "\<lparr> results = [unreadRecord ''A'' ''S'' 1000, unreadRecord ''A'' ''M'' MaxUint256],
            completedTasks = Num 1, warnings = [BalanceWarning ''A'' ''USDT''] \<rparr>"
  have t: "tokAddress usdtLine = ''T''" by (simp add: usdtLine_def)
  have n: "newContract demoEnv (tokAddress usdtLine)" by (simp add: demoEnv_def t)
  have n': "newContract noBalanceEnv (tokAddress usdtLine)"
    by (simp add: noBalanceEnv_def demoEnv_def t)
  have sd: "symbolDecimals demoEnv ''T'' = Some (''USDT'', 0)"
    "symbolDecimals noBalanceEnv ''T'' = Some (''USDT'', 0)"
    by (simp_all add: noBalanceEnv_def demoEnv_def)
  have f: "formatUnits demoEnv v 0 \<noteq> None" "formatUnits noBalanceEnv v 0 \<noteq> None" for v
    by (simp_all add: noBalanceEnv_def demoEnv_def)
  have al: "allowanceOf demoEnv (tokAddress usdtLine) ''A'' ''Q'' = None"
    "allowanceOf demoEnv (tokAddress usdtLine) ''B'' ''S'' = Some 1000"
    "allowanceOf noBalanceEnv (tokAddress usdtLine) ''A'' ''M'' = Some MaxUint256"
    by (simp_all add: noBalanceEnv_def demo_allowances)
  have bl: "balanceOf demoEnv (tokAddress usdtLine) ''B'' = None"
    "balanceOf noBalanceEnv (tokAddress usdtLine) ''A'' = None"
    by (simp_all add: noBalanceEnv_def demoEnv_def)
  have q: "queryFilter demoEnv (tokAddress usdtLine) ''B'' 50 100 = None"
    "queryFilter noBalanceEnv (tokAddress usdtLine) ''A'' 50 100 = Some [''S'', ''M'', ''S'', ''Z'']"
    by (simp_all add: noBalanceEnv_def demoEnv_def)
  have g: "getBlockNumber demoEnv = Some 100" "getBlockNumber noBalanceEnv = Some 100"
    by (simp_all add: noBalanceEnv_def demoEnv_def)
  have ru: "checkApprovals demoEnv [''B''] [usdtLine] [''S''] = Done ?u"
    by (simp add: demo_run_unread_balance unreadRecord_def toString_1000 MaxUint256_def)
  note bz = failed_reads_logged_and_counted
      [where e = demoEnv and addresses = "[''A'']" and tokens = "[usdtLine]"
         and spenders = "[''S'', ''Z'', ''Q'']" and st = ?z,
       THEN conjunct1, THEN mp, OF demo_basic_run_zero]
  from bz [THEN conjunct2, THEN conjunct1, rule_format, of "''A''" usdtLine "''Q''"] n al
  have 1: "AllowanceWarning ''A'' (tokAddress usdtLine) ''Q'' \<in> set (warnings ?z)"
    by simp
  note bu = failed_reads_logged_and_counted
      [where e = demoEnv and addresses = "[''B'']" and tokens = "[usdtLine]"
         and spenders = "[''S'']" and st = ?u,
       THEN conjunct1, THEN mp, OF ru]
  from bu [THEN conjunct2, THEN conjunct2, THEN conjunct1, rule_format, of "''B''" usdtLine] n bl
  have 2: "BalanceWarning ''B'' ''USDT'' \<in> set (warnings ?u)"
    by (simp add: t sd)
  from bu [THEN conjunct2, THEN conjunct2, THEN conjunct2, THEN conjunct2, rule_format,
      of "''B''" usdtLine "''S''" 1000] n bl al f
  have 3: "\<exists>r \<in> set (results ?u).
          walletAddress r = ''B'' \<and> tokenAddress r = ''T'' \<and> spenderAddress r = ''S''
          \<and> rawAllowance r = ''1000'' \<and> rawBalance r = ''0'' \<and> rawExposedAmount r = ''0''"
    by (simp add: t sd toString_1000)
  note aq = failed_reads_logged_and_counted
      [where e = demoEnv and addresses = "[''B'']" and tokens = "[usdtLine]"
         and lookbackBlocks = 50 and st' = ?q,
       THEN conjunct2, THEN conjunct2, THEN conjunct1, THEN mp, OF demo_advanced_run_failed_query]
  have 4: "EventsWarning ''B'' \<in> set (warnings ?q)"
    using aq
  proof (elim exE conjE)
    fix cb sb
    assume "getBlockNumber demoEnv = Some cb" and "sb = max 0 (cb - 50)"
      and ev: "\<forall>ti \<in> set [usdtLine]. \<forall>a \<in> set [''B''].
              newContract demoEnv (tokAddress ti) \<longrightarrow>
              queryFilter demoEnv (tokAddress ti) a sb cb = None \<longrightarrow>
              EventsWarning a \<in> set (warnings ?q)"
    with g have "cb = 100" "sb = 50" by simp_all
    with ev [rule_format, of usdtLine "''B''"] n q
    show "EventsWarning ''B'' \<in> set (warnings ?q)" by simp
  qed
  note an = failed_reads_logged_and_counted
      [where e = noBalanceEnv and addresses = "[''A'']" and tokens = "[usdtLine]"
         and lookbackBlocks = 50 and st' = ?n,
       THEN conjunct2, THEN conjunct2, THEN conjunct1, THEN mp, OF demo_advanced_run_unread_balance]
  have mz: "MaxUint256 \<noteq> 0" by (simp add: MaxUint256_def)
  have 56: "BalanceWarning ''A'' ''USDT'' \<in> set (warnings ?n)
      \<and> (\<exists>r \<in> set (results ?n).
          walletAddress r = ''A'' \<and> tokenAddress r = ''T'' \<and> spenderAddress r = ''M''
          \<and> rawAllowance r = toString MaxUint256 \<and> rawBalance r = ''0''
          \<and> rawExposedAmount r = ''0'')"
    using an
  proof (elim exE conjE)
    fix cb' sb'
    assume g': "getBlockNumber noBalanceEnv = Some cb'" and s': "sb' = max 0 (cb' - 50)"
      and r1: "\<forall>ti \<in> set [usdtLine]. \<forall>a \<in> set [''A''].
              newContract noBalanceEnv (tokAddress ti) \<longrightarrow>
              balanceOf noBalanceEnv (tokAddress ti) a = None \<longrightarrow>
              BalanceWarning a
                 (case symbolDecimals noBalanceEnv (tokAddress ti) of
                  Some (symbol, decimals) \<Rightarrow> symbol | None \<Rightarrow> unknownSymbol)
                \<in> set (warnings ?n)"
      and r2: "\<forall>ti \<in> set [usdtLine]. \<forall>a \<in> set [''A'']. \<forall>events.
              queryFilter noBalanceEnv (tokAddress ti) a sb' cb' = Some events \<longrightarrow>
              (\<forall>s \<in> set events. \<forall>allow.
                 newContract noBalanceEnv (tokAddress ti) \<longrightarrow>
                 balanceOf noBalanceEnv (tokAddress ti) a = None \<longrightarrow>
                 allowanceOf noBalanceEnv (tokAddress ti) a s = Some allow \<longrightarrow> allow \<noteq> 0 \<longrightarrow>
                 (allow = MaxUint256 \<or> formatUnits noBalanceEnv allow
                     (case symbolDecimals noBalanceEnv (tokAddress ti) of
                        Some (symbol, decimals) \<Rightarrow> decimals | None \<Rightarrow> 18) \<noteq> None) \<longrightarrow>
                 formatUnits noBalanceEnv 0
                     (case symbolDecimals noBalanceEnv (tokAddress ti) of
                        Some (symbol, decimals) \<Rightarrow> decimals | None \<Rightarrow> 18) \<noteq> None \<longrightarrow>
                 (\<exists>r \<in> set (results ?n).
                    walletAddress r = a \<and> tokenAddress r = tokAddress ti \<and> spenderAddress r = s
                    \<and> rawAllowance r = toString allow \<and> rawBalance r = ''0''
                    \<and> rawExposedAmount r = ''0''))"
    from g g' s' have c: "cb' = 100" "sb' = 50" by simp_all
    from r1 [rule_format, of usdtLine "''A''"] n' bl
    have 5: "BalanceWarning ''A'' ''USDT'' \<in> set (warnings ?n)"
      by (simp add: t sd)
    from r2 [rule_format, of usdtLine "''A''" "[''S'', ''M'', ''S'', ''Z'']" "''M''" MaxUint256]
      n' bl al q mz f
    have 6: "\<exists>r \<in> set (results ?n).
          walletAddress r = ''A'' \<and> tokenAddress r = ''T'' \<and> spenderAddress r = ''M''
          \<and> rawAllowance r = toString MaxUint256 \<and> rawBalance r = ''0''
          \<and> rawExposedAmount r = ''0''"
      by (simp add: t sd c)
    from 5 6 show "BalanceWarning ''A'' ''USDT'' \<in> set (warnings ?n)
      \<and> (\<exists>r \<in> set (results ?n).
          walletAddress r = ''A'' \<and> tokenAddress r = ''T'' \<and> spenderAddress r = ''M''
          \<and> rawAllowance r = toString MaxUint256 \<and> rawBalance r = ''0''
          \<and> rawExposedAmount r = ''0'')"
      by (rule conjI)
  qed
  note 5 = 56 [THEN conjunct1] and 6 = 56 [THEN conjunct2]
  have x: "allowanceOf demoEnv ''T'' ''A'' ''Q'' = None" "balanceOf demoEnv ''T'' ''B'' = None"
    "queryFilter demoEnv ''T'' ''B'' 50 100 = None" "balanceOf noBalanceEnv ''T'' ''A'' = None"
    using al bl q by (simp_all add: t)
  from 1 have w: "AllowanceWarning ''A'' ''T'' ''Q'' \<in> set (warnings ?z)" by (simp add: t)
  show ?thesis
    by (intro conjI demo_basic_run_zero ru demo_advanced_run_failed_query
          demo_advanced_run_unread_balance x w 2 3 4 5 6)
qed

text \<open>
  C6 as written fails for the balance read: for wallet \<open>B\<close> the read fails, the
  warning is logged, and the record of the triple is produced all the same, with balance 0.
\<close>

theorem unread_balance_still_recorded:
  "balanceOf demoEnv ''T'' ''B'' = None
   \<and> checkApprovals demoEnv [''B''] [usdtLine] [''S''] =
     Done \<lparr> results =
              [\<lparr> walletAddress = ''B'', tokenAddress = ''T'', tokenSymbol = ''USDT'',
                 spenderAddress = ''S'', allowance = ''1000'', rawAllowance = ''1000'',
                 isInfiniteApproval = False, balance = ''0'', rawBalance = ''0'',
                 exposedAmount = ''0'', rawExposedAmount = ''0'',
                 price = Some 1, exposedValueUSD = Some 0 \<rparr>],
            completedTasks = Num 1,
            warnings = [BalanceWarning ''B'' ''USDT''] \<rparr>"
  by (simp add: demo_run_unread_balance) (simp add: demoEnv_def)

section \<open>The emission rule of the progress display\<close>

lemma updateProgress_tracks:
  assumes "if written p = [] then lastUpdate p = startTime \<and> lastProgress p = Fin 0
           else lastUpdate p = writtenAt (last (written p)) \<and>
                lastProgress p = shownPercent (last (written p))"
  shows "let p' = foldl (\<lambda>p (now, completed, force, action).
                     updateProgress e startTime totalTasks completed now force action p) p calls
         in if written p' = [] then lastUpdate p' = startTime \<and> lastProgress p' = Fin 0
            else lastUpdate p' = writtenAt (last (written p')) \<and>
                 lastProgress p' = shownPercent (last (written p'))"
  using assms
proof (induction calls arbitrary: p)
  case Nil
  then show ?case by (simp add: Let_def)
next
  case (Cons call calls)
  obtain now completed force action where c: "call = (now, completed, force, action)"
    by (metis prod.exhaust)
  let ?q = "updateProgress e startTime totalTasks completed now force action p"
  have "if written ?q = [] then lastUpdate ?q = startTime \<and> lastProgress ?q = Fin 0
        else lastUpdate ?q = writtenAt (last (written ?q)) \<and>
             lastProgress ?q = shownPercent (last (written ?q))"
    using Cons.prems by (simp add: updateProgress_def Let_def)
  from Cons.IH [OF this] show ?case by (simp add: c)
qed

lemma emission_finite:
  assumes "totalTasks \<noteq> 0" and "lastProgress p = Fin q"
  shows "written (updateProgress e startTime totalTasks (Num c) now force action p) \<noteq> written p
     \<longleftrightarrow> force \<or> 500 \<le> now - lastUpdate p
          \<or> q < of_int \<lfloor>fmul e (fdiv e (of_int c) (of_nat totalTasks)) 100\<rfloor>"
  using assms by (simp add: updateProgress_def percentOf_def Let_def)

lemma emission_nan:
  assumes "completed = NaN \<or> (totalTasks = 0 \<and> completed = Num 0) \<or> lastProgress p = NotANumber"
  shows "written (updateProgress e startTime totalTasks completed now force action p) \<noteq> written p
     \<longleftrightarrow> force \<or> 500 \<le> now - lastUpdate p"
proof -
  have "\<not> jsGreater (percentOf e completed totalTasks) (lastProgress p)"
    using assms
    by (cases "percentOf e completed totalTasks"; cases "lastProgress p")
       (auto simp: percentOf_def)
  then show ?thesis by (simp add: updateProgress_def Let_def)
qed

lemma emission_line:
  assumes "written (updateProgress e startTime totalTasks completed now force action p) \<noteq> written p"
  shows "\<exists>line. updateProgress e startTime totalTasks completed now force action p =
            \<lparr> lastUpdate = now, lastProgress = shownPercent line, written = written p @ [line] \<rparr>
          \<and> writtenAt line = now \<and> shownCompleted line = completed
          \<and> shownTotal line = totalTasks \<and> shownAction line = action
          \<and> (\<forall>c. completed = Num c \<longrightarrow> totalTasks \<noteq> 0 \<longrightarrow>
                shownPercent line =
                  Fin (of_int \<lfloor>fmul e (fdiv e (of_int c) (of_nat totalTasks)) 100\<rfloor>))
          \<and> (\<forall>c. completed = Num c \<longrightarrow> 0 < c \<longrightarrow>
                shownEta line =
                  (let remainingTime =
                         fmul e (fdiv e (fdiv e (of_int (now - startTime)) 1000) (of_int c))
                           (of_int (int totalTasks - c))
                   in if remainingTime < 60 then Seconds \<lceil>remainingTime\<rceil>
                      else if remainingTime < 3600 then Minutes \<lceil>fdiv e remainingTime 60\<rceil>
                      else Hours (toFixed e (fdiv e remainingTime 3600) 1)))
          \<and> (completed = NaN \<or> (\<exists>c. completed = Num c \<and> c \<le> 0) \<longrightarrow>
                shownEta line = Computing)"
proof -
  from assms have "force \<or> now - lastUpdate p \<ge> 500
      \<or> jsGreater (percentOf e completed totalTasks) (lastProgress p)"
    by (auto simp: updateProgress_def Let_def split: if_splits)
  then have u: "updateProgress e startTime totalTasks completed now force action p =
      \<lparr> lastUpdate = now, lastProgress = percentOf e completed totalTasks,
        written = written p @
              [\<lparr> writtenAt = now, shownCompleted = completed, shownTotal = totalTasks,
                 shownPercent = percentOf e completed totalTasks,
                 shownEta = etaOf e startTime totalTasks completed now,
                 shownAction = action \<rparr>] \<rparr>"
    by (simp add: updateProgress_def Let_def)
  show ?thesis
    unfolding u
    by (rule exI [of _ "\<lparr> writtenAt = now, shownCompleted = completed, shownTotal = totalTasks,
                 shownPercent = percentOf e completed totalTasks,
                 shownEta = etaOf e startTime totalTasks completed now,
                 shownAction = action \<rparr>"])
       (auto simp: percentOf_def etaOf_def formatRemaining_def Let_def)
qed

text \<open>
  C9. After any sequence of calls the two variables of the display are the time and the
  percentage of the last line written (the start time and 0 before the first line). With
  tasks to do, a call writes a line exactly when it is forced, or 500 ms or more have
  passed since that time, or its percentage, the floor of completed / total * 100, is
  greater than that percentage; where the percentage is not a number (no tasks, or a
  counter that is not a number) only the first two count. A call that writes nothing
  changes nothing. A call that writes appends one line, with the counter, the total, the
  percentage and the remaining time: (elapsed / completed) * (total - completed), in
  seconds rounded up below 60, in minutes rounded up below 3600, in hours with one decimal
  otherwise, when the counter is positive, and the placeholder when it is not.
\<close>

theorem progress_emission_rule:
  "(let p' = foldl (\<lambda>p (now, completed, force, action).
                     updateProgress e startTime totalTasks completed now force action p)
                (initialProgress startTime) calls
    in if written p' = [] then lastUpdate p' = startTime \<and> lastProgress p' = Fin 0
       else lastUpdate p' = writtenAt (last (written p')) \<and>
            lastProgress p' = shownPercent (last (written p')))
   \<and> (totalTasks \<noteq> 0 \<and> lastProgress p = Fin q \<longrightarrow>
        (written (updateProgress e startTime totalTasks (Num c) now force action p) \<noteq> written p
           \<longleftrightarrow> force \<or> 500 \<le> now - lastUpdate p
                \<or> q < of_int \<lfloor>fmul e (fdiv e (of_int c) (of_nat totalTasks)) 100\<rfloor>))
   \<and> (completed = NaN \<or> (totalTasks = 0 \<and> completed = Num 0) \<or> lastProgress p = NotANumber \<longrightarrow>
        (written (updateProgress e startTime totalTasks completed now force action p) \<noteq> written p
           \<longleftrightarrow> force \<or> 500 \<le> now - lastUpdate p))
   \<and> (written (updateProgress e startTime totalTasks completed now force action p) = written p
        \<longrightarrow> updateProgress e startTime totalTasks completed now force action p = p)
   \<and> (written (updateProgress e startTime totalTasks completed now force action p) \<noteq> written p
        \<longrightarrow> (\<exists>line. updateProgress e startTime totalTasks completed now force action p =
            \<lparr> lastUpdate = now, lastProgress = shownPercent line, written = written p @ [line] \<rparr>
          \<and> writtenAt line = now \<and> shownCompleted line = completed
          \<and> shownTotal line = totalTasks \<and> shownAction line = action
          \<and> (\<forall>c. completed = Num c \<longrightarrow> totalTasks \<noteq> 0 \<longrightarrow>
                shownPercent line =
                  Fin (of_int \<lfloor>fmul e (fdiv e (of_int c) (of_nat totalTasks)) 100\<rfloor>))
          \<and> (\<forall>c. completed = Num c \<longrightarrow> 0 < c \<longrightarrow>
                shownEta line =
                  (let remainingTime =
                         fmul e (fdiv e (fdiv e (of_int (now - startTime)) 1000) (of_int c))
                           (of_int (int totalTasks - c))
                   in if remainingTime < 60 then Seconds \<lceil>remainingTime\<rceil>
                      else if remainingTime < 3600 then Minutes \<lceil>fdiv e remainingTime 60\<rceil>
                      else Hours (toFixed e (fdiv e remainingTime 3600) 1)))
          \<and> (completed = NaN \<or> (\<exists>c. completed = Num c \<and> c \<le> 0) \<longrightarrow>
                shownEta line = Computing)))"
proof (intro conjI)
  show "(let p' = foldl (\<lambda>p (now, completed, force, action).
                     updateProgress e startTime totalTasks completed now force action p)
                (initialProgress startTime) calls
    in if written p' = [] then lastUpdate p' = startTime \<and> lastProgress p' = Fin 0
       else lastUpdate p' = writtenAt (last (written p')) \<and>
            lastProgress p' = shownPercent (last (written p')))"
    by (rule updateProgress_tracks) (simp add: initialProgress_def)
  show "(totalTasks \<noteq> 0 \<and> lastProgress p = Fin q \<longrightarrow>
        (written (updateProgress e startTime totalTasks (Num c) now force action p) \<noteq> written p
           \<longleftrightarrow> force \<or> 500 \<le> now - lastUpdate p
                \<or> q < of_int \<lfloor>fmul e (fdiv e (of_int c) (of_nat totalTasks)) 100\<rfloor>))"
    using emission_finite [of totalTasks p q e startTime c now force action] by blast
  show "(completed = NaN \<or> (totalTasks = 0 \<and> completed = Num 0) \<or> lastProgress p = NotANumber \<longrightarrow>
        (written (updateProgress e startTime totalTasks completed now force action p) \<noteq> written p
           \<longleftrightarrow> force \<or> 500 \<le> now - lastUpdate p))"
    using emission_nan [of completed totalTasks p e startTime now force action] by blast
  show "written (updateProgress e startTime totalTasks completed now force action p) = written p
        \<longrightarrow> updateProgress e startTime totalTasks completed now force action p = p"
    by (simp add: updateProgress_def Let_def)
  show "written (updateProgress e startTime totalTasks completed now force action p) \<noteq> written p
        \<longrightarrow> (\<exists>line. updateProgress e startTime totalTasks completed now force action p =
            \<lparr> lastUpdate = now, lastProgress = shownPercent line, written = written p @ [line] \<rparr>
          \<and> writtenAt line = now \<and> shownCompleted line = completed
          \<and> shownTotal line = totalTasks \<and> shownAction line = action
          \<and> (\<forall>c. completed = Num c \<longrightarrow> totalTasks \<noteq> 0 \<longrightarrow>
                shownPercent line =
                  Fin (of_int \<lfloor>fmul e (fdiv e (of_int c) (of_nat totalTasks)) 100\<rfloor>))
          \<and> (\<forall>c. completed = Num c \<longrightarrow> 0 < c \<longrightarrow>
                shownEta line =
                  (let remainingTime =
                         fmul e (fdiv e (fdiv e (of_int (now - startTime)) 1000) (of_int c))
                           (of_int (int totalTasks - c))
                   in if remainingTime < 60 then Seconds \<lceil>remainingTime\<rceil>
                      else if remainingTime < 3600 then Minutes \<lceil>fdiv e remainingTime 60\<rceil>
                      else Hours (toFixed e (fdiv e remainingTime 3600) 1)))
          \<and> (completed = NaN \<or> (\<exists>c. completed = Num c \<and> c \<le> 0) \<longrightarrow>
                shownEta line = Computing))"
    using emission_line [of e startTime totalTasks completed now force action p] by (intro impI)
qed

theorem progress_emission_rule_witness:
  "updateProgress demoEnv 0 4 (Num 2) 2900 True [] (initialProgress 0) =
       \<lparr> lastUpdate = 2900, lastProgress = Fin 50,
         written = [\<lparr> writtenAt = 2900, shownCompleted = Num 2, shownTotal = 4,
                      shownPercent = Fin 50, shownEta = Seconds 3, shownAction = [] \<rparr>] \<rparr>
   \<and> updateProgress demoEnv 0 4 (Num 3) 3000 False []
       \<lparr> lastUpdate = 2900, lastProgress = Fin 50,
         written = [\<lparr> writtenAt = 2900, shownCompleted = Num 2, shownTotal = 4,
                      shownPercent = Fin 50, shownEta = Seconds 3, shownAction = [] \<rparr>] \<rparr>
     = \<lparr> lastUpdate = 3000, lastProgress = Fin 75,
         written = [\<lparr> writtenAt = 2900, shownCompleted = Num 2, shownTotal = 4,
                      shownPercent = Fin 50, shownEta = Seconds 3, shownAction = [] \<rparr>,
                    \<lparr> writtenAt = 3000, shownCompleted = Num 3, shownTotal = 4,
                      shownPercent = Fin 75, shownEta = Seconds 1, shownAction = [] \<rparr>] \<rparr>
   \<and> updateProgress demoEnv 0 4 (Num 2) 3000 False []
       \<lparr> lastUpdate = 2900, lastProgress = Fin 50,
         written = [\<lparr> writtenAt = 2900, shownCompleted = Num 2, shownTotal = 4,
                      shownPercent = Fin 50, shownEta = Seconds 3, shownAction = [] \<rparr>] \<rparr>
     = \<lparr> lastUpdate = 2900, lastProgress = Fin 50,
         written = [\<lparr> writtenAt = 2900, shownCompleted = Num 2, shownTotal = 4,
                      shownPercent = Fin 50, shownEta = Seconds 3, shownAction = [] \<rparr>] \<rparr>
   \<and> updateProgress demoEnv 0 4 (Num 2) 3400 False []
       \<lparr> lastUpdate = 2900, lastProgress = Fin 50,
         written = [\<lparr> writtenAt = 2900, shownCompleted = Num 2, shownTotal = 4,
                      shownPercent = Fin 50, shownEta = Seconds 3, shownAction = [] \<rparr>] \<rparr>
     = \<lparr> lastUpdate = 3400, lastProgress = Fin 50,
         written = [\<lparr> writtenAt = 2900, shownCompleted = Num 2, shownTotal = 4,
                      shownPercent = Fin 50, shownEta = Seconds 3, shownAction = [] \<rparr>,
                    \<lparr> writtenAt = 3400, shownCompleted = Num 2, shownTotal = 4,
                      shownPercent = Fin 50, shownEta = Seconds 4, shownAction = [] \<rparr>] \<rparr>
   \<and> shownEta (last (written (updateProgress demoEnv 0 4 (Num 0) 700 False [] (initialProgress 0))))
       = Computing
   \<and> shownEta (last (written (updateProgress demoEnv 0 4 (Num 1) 120000 False [] (initialProgress 0))))
       = Minutes 6
   \<and> shownEta (last (written (updateProgress demoEnv 0 3 (Num 1) 3600000 False [] (initialProgress 0))))
       = Hours ''2''
   \<and> updateProgress demoEnv 0 0 (Num 0) 100 False [] (initialProgress 0) = initialProgress 0
   \<and> foldl (\<lambda>p (now, completed, force, action).
               updateProgress demoEnv 0 4 completed now force action p)
        (initialProgress 0)
        [(2900, Num 2, True, []), (3000, Num 2, False, []), (3000, Num 3, False, []),
         (3100, Num 3, False, [])]
     = \<lparr> lastUpdate = 3000, lastProgress = Fin 75,
         written = [\<lparr> writtenAt = 2900, shownCompleted = Num 2, shownTotal = 4,
                      shownPercent = Fin 50, shownEta = Seconds 3, shownAction = [] \<rparr>,
                    \<lparr> writtenAt = 3000, shownCompleted = Num 3, shownTotal = 4,
                      shownPercent = Fin 75, shownEta = Seconds 1, shownAction = [] \<rparr>] \<rparr>"
proof -
  let ?p0 = "\<lparr> lastUpdate = 2900, lastProgress = Fin 50,
         written = [\<lparr> writtenAt = 2900, shownCompleted = Num 2, shownTotal = 4,
                      shownPercent = Fin 50, shownEta = Seconds 3, shownAction = [] \<rparr>] \<rparr>"
  let ?p1 = "\<lparr> lastUpdate = 3000, lastProgress = Fin 75,
         written = [\<lparr> writtenAt = 2900, shownCompleted = Num 2, shownTotal = 4,
                      shownPercent = Fin 50, shownEta = Seconds 3, shownAction = [] \<rparr>,
                    \<lparr> writtenAt = 3000, shownCompleted = Num 3, shownTotal = 4,
                      shownPercent = Fin 75, shownEta = Seconds 1, shownAction = [] \<rparr>] \<rparr>"
  have d: "fdiv demoEnv x y = x / y" "fmul demoEnv x y = x * y" for x y
    by (simp_all add: demoEnv_def)
  have ts: "toString 2 = ''2''" by code_simp
  have tg: "toFixed demoEnv x n = toString (nat \<lfloor>x\<rfloor>)" for x n
    by (simp add: demoEnv_def)
  have 0: "updateProgress demoEnv 0 4 (Num 2) 2900 True [] (initialProgress 0) = ?p0"
    by (simp add: updateProgress_def percentOf_def etaOf_def formatRemaining_def
          initialProgress_def Let_def d)
  note t = progress_emission_rule [where e = demoEnv and startTime = 0 and totalTasks = 4
      and p = ?p0 and q = 50 and now = 3000 and force = False and action = "[]"]
  have "written (updateProgress demoEnv 0 4 (Num 3) 3000 False [] ?p0) \<noteq> written ?p0"
    using t [where c = 3, THEN conjunct2, THEN conjunct1] by (simp add: d)
  then have 1: "updateProgress demoEnv 0 4 (Num 3) 3000 False [] ?p0 = ?p1"
    by (simp add: updateProgress_def percentOf_def etaOf_def formatRemaining_def Let_def d)
  have "written (updateProgress demoEnv 0 4 (Num 2) 3000 False [] ?p0) = written ?p0"
    using t [where c = 2, THEN conjunct2, THEN conjunct1] by (simp add: d)
  with t [where completed = "Num 2", THEN conjunct2, THEN conjunct2, THEN conjunct2, THEN conjunct1]
  have 2: "updateProgress demoEnv 0 4 (Num 2) 3000 False [] ?p0 = ?p0"
    by blast
  have 3: "updateProgress demoEnv 0 4 (Num 2) 3400 False [] ?p0 =
      \<lparr> lastUpdate = 3400, lastProgress = Fin 50,
         written = [\<lparr> writtenAt = 2900, shownCompleted = Num 2, shownTotal = 4,
                      shownPercent = Fin 50, shownEta = Seconds 3, shownAction = [] \<rparr>,
                    \<lparr> writtenAt = 3400, shownCompleted = Num 2, shownTotal = 4,
                      shownPercent = Fin 50, shownEta = Seconds 4, shownAction = [] \<rparr>] \<rparr>"
    by (simp add: updateProgress_def percentOf_def etaOf_def formatRemaining_def Let_def d)
  have 4: "shownEta (last (written (updateProgress demoEnv 0 4 (Num 0) 700 False [] (initialProgress 0))))
       = Computing"
    "shownEta (last (written (updateProgress demoEnv 0 4 (Num 1) 120000 False [] (initialProgress 0))))
       = Minutes 6"
    "shownEta (last (written (updateProgress demoEnv 0 3 (Num 1) 3600000 False [] (initialProgress 0))))
       = Hours ''2''"
    by (simp_all add: updateProgress_def percentOf_def etaOf_def formatRemaining_def
          initialProgress_def Let_def d tg ts)
  note n = progress_emission_rule [where e = demoEnv and startTime = 0 and totalTasks = 0
      and p = "initialProgress 0" and completed = "Num 0" and now = 100 and force = False
      and action = "[]"]
  have "written (updateProgress demoEnv 0 0 (Num 0) 100 False [] (initialProgress 0))
          = written (initialProgress 0)"
    using n [THEN conjunct2, THEN conjunct2, THEN conjunct1]
    by (simp add: initialProgress_def)
  with n [THEN conjunct2, THEN conjunct2, THEN conjunct2, THEN conjunct1]
  have 5: "updateProgress demoEnv 0 0 (Num 0) 100 False [] (initialProgress 0) = initialProgress 0"
    by blast
  have 6: "updateProgress demoEnv 0 4 (Num 3) 3100 False [] ?p1 = ?p1"
    by (simp add: updateProgress_def percentOf_def Let_def d)
  have 7: "foldl (\<lambda>p (now, completed, force, action).
               updateProgress demoEnv 0 4 completed now force action p)
        (initialProgress 0)
        [(2900, Num 2, True, []), (3000, Num 2, False, []), (3000, Num 3, False, []),
         (3100, Num 3, False, [])] = ?p1"
    by (simp add: 0 1 2 6)
  from 0 1 2 3 4 5 7 show ?thesis by (intro conjI)
qed

section \<open>The displayed subset\<close>

lemma sameTriple_triple: "sameTriple r result \<longleftrightarrow> triple r = triple result"
  by (auto simp: sameTriple_def triple_def)

lemma triple_fields: "triple = (\<lambda>r. (walletAddress r, tokenAddress r, spenderAddress r))"
  by (rule ext) (simp add: triple_def)

lemma length_mergeImportant:
  "length (mergeImportant imps infs) \<le> length imps + length infs"
proof (induction infs arbitrary: imps)
  case Nil
  show ?case by simp
next
  case (Cons x infs)
  show ?case
    using Cons [of "imps @ [x]"] Cons [of imps] by auto
qed

lemma mergeImportant_prefix: "take (length imps) (mergeImportant imps infs) = imps"
proof (induction infs arbitrary: imps)
  case Nil
  show ?case by simp
next
  case (Cons x infs)
  have "take (length imps) (mergeImportant (imps @ [x]) infs) = imps"
    using Cons [of "imps @ [x]"]
    by (metis append_eq_conv_conj take_take length_append le_add1 min.absorb1)
  with Cons [of imps] show ?case by simp
qed

lemma set_mergeImportant: "set (mergeImportant imps infs) \<subseteq> set imps \<union> set infs"
proof (induction infs arbitrary: imps)
  case Nil
  show ?case by simp
next
  case (Cons x infs)
  show ?case
    using Cons [of "imps @ [x]"] Cons [of imps] by auto
qed

lemma mergeImportant_keeps: "set imps \<subseteq> set (mergeImportant imps infs)"
proof (induction infs arbitrary: imps)
  case Nil
  show ?case by simp
next
  case (Cons x infs)
  show ?case
    using Cons [of "imps @ [x]"] Cons [of imps] by auto
qed

lemma mergeImportant_covers: "triple ` set infs \<subseteq> triple ` set (mergeImportant imps infs)"
proof (induction infs arbitrary: imps)
  case Nil
  show ?case by simp
next
  case (Cons x infs)
  let ?imp' = "if \<not> list_ex (\<lambda>r. sameTriple r x) imps then imps @ [x] else imps"
  have "triple x \<in> triple ` set ?imp'"
    by (auto simp: list_ex_iff sameTriple_triple intro: rev_image_eqI)
  moreover have "set ?imp' \<subseteq> set (mergeImportant ?imp' infs)"
    by (rule mergeImportant_keeps)
  ultimately have "triple x \<in> triple ` set (mergeImportant ?imp' infs)" by blast
  with Cons [of ?imp'] show ?case by simp
qed

lemma distinct_mergeImportant:
  "distinct (map triple imps) \<Longrightarrow> distinct (map triple (mergeImportant imps infs))"
proof (induction infs arbitrary: imps)
  case Nil
  then show ?case by simp
next
  case (Cons x infs)
  let ?imp' = "if \<not> list_ex (\<lambda>r. sameTriple r x) imps then imps @ [x] else imps"
  have "distinct (map triple ?imp')"
    using Cons.prems by (auto simp: list_ex_iff sameTriple_triple)
  from Cons.IH [OF this] show ?case by simp
qed

text \<open>The two extreme cases of the merge: nothing in common, and nothing new.\<close>

lemma mergeImportant_disjoint:
  "distinct (map triple (imps @ infs)) \<Longrightarrow> mergeImportant imps infs = imps @ infs"
proof (induction infs arbitrary: imps)
  case Nil
  show ?case by simp
next
  case (Cons x infs)
  from Cons.prems have "triple x \<notin> triple ` set imps"
    by auto
  then have "\<not> list_ex (\<lambda>r. sameTriple r x) imps"
    unfolding list_ex_iff sameTriple_triple by (metis image_eqI)
  moreover from Cons.prems have "distinct (map triple ((imps @ [x]) @ infs))"
    by simp
  ultimately show ?case
    using Cons.IH [of "imps @ [x]"] by simp
qed

lemma mergeImportant_absorbed:
  "triple ` set infs \<subseteq> triple ` set imps \<Longrightarrow> mergeImportant imps infs = imps"
proof (induction infs arbitrary: imps)
  case Nil
  show ?case by simp
next
  case (Cons x infs)
  from Cons.prems have "triple x \<in> triple ` set imps"
    by simp
  then have "list_ex (\<lambda>r. sameTriple r x) imps"
    unfolding list_ex_iff sameTriple_triple by (metis imageE)
  moreover from Cons.prems have "triple ` set infs \<subseteq> triple ` set imps" by simp
  ultimately show ?case
    using Cons.IH [of imps] by simp
qed

lemma sortedResults_descending:
  "sorted_wrt (\<lambda>a b. the (exposedValueUSD b) \<le> the (exposedValueUSD a)) (sortedResults rs)"
proof -
  have "sorted (map (\<lambda>r. - the (exposedValueUSD r)) (sortedResults rs))"
    unfolding sortedResults_def by (rule sorted_sort_key)
  then show ?thesis by (simp add: sorted_map)
qed

lemma mset_sortedResults:
  "mset (sortedResults rs) = mset (filter (\<lambda>r. exposedValueUSD r \<noteq> None) rs)"
  by (simp add: sortedResults_def)

lemma sortedResults_stable:
  "filter (\<lambda>r. exposedValueUSD r = Some v) (sortedResults rs) =
     filter (\<lambda>r. exposedValueUSD r = Some v) rs"
proof -
  let ?k = "\<lambda>r. - the (exposedValueUSD r)"
  let ?xs = "filter (\<lambda>r. exposedValueUSD r \<noteq> None) rs"
  have "filter (\<lambda>r. exposedValueUSD r = Some v) (sortedResults rs) =
      filter (\<lambda>r. ?k r = - v) (sortedResults rs)"
    by (rule filter_cong) (auto simp: sortedResults_def)
  also have "\<dots> = filter (\<lambda>r. ?k r = - v) ?xs"
    unfolding sortedResults_def by (rule sort_key_stable)
  also have "\<dots> = filter (\<lambda>r. exposedValueUSD r = Some v) ?xs"
    by (rule filter_cong) auto
  also have "\<dots> = filter (\<lambda>r. exposedValueUSD r = Some v) rs"
    by (induction rs) auto
  finally show ?thesis .
qed

lemma sortedResults_top:
  assumes "x \<in> set (take n (sortedResults rs))" and "y \<in> set (drop n (sortedResults rs))"
  shows "the (exposedValueUSD y) \<le> the (exposedValueUSD x)"
proof -
  have "sorted_wrt (\<lambda>a b. the (exposedValueUSD b) \<le> the (exposedValueUSD a))
          (take n (sortedResults rs) @ drop n (sortedResults rs))"
    using sortedResults_descending [of rs] by simp
  with assms show ?thesis
    unfolding sorted_wrt_append by blast
qed

lemma distinct_sortedResults:
  assumes "distinct (map triple rs)"
  shows "distinct (map triple (take n (sortedResults rs)))"
proof -
  have "distinct (map triple (filter (\<lambda>r. exposedValueUSD r \<noteq> None) rs))"
    using assms by (rule distinct_map_filter)
  moreover have "mset (map triple (sortedResults rs)) =
      mset (map triple (filter (\<lambda>r. exposedValueUSD r \<noteq> None) rs))"
    by (simp add: mset_sortedResults)
  ultimately have "distinct (map triple (sortedResults rs))"
    using mset_eq_imp_distinct_iff by blast
  then show ?thesis by (simp add: take_map [symmetric])
qed

lemma displayRows_large:
  assumes "100 < length rs"
  shows "displayRows rs =
     mergeImportant (take 50 (sortedResults rs)) (take 50 (filter isInfiniteApproval rs))"
proof -
  have "length (mergeImportant (take 50 (sortedResults rs)) (take 50 (filter isInfiniteApproval rs)))
      \<le> length (take 50 (sortedResults rs)) + length (take 50 (filter isInfiniteApproval rs))"
    by (rule length_mergeImportant)
  also have "\<dots> \<le> 100" by simp
  finally show ?thesis
    using assms by (simp add: displayRows_def MAX_DISPLAY_ROWS_def Let_def)
qed

lemma exportResults_lines: "exportResults e rs = csvHeader @ concat (map (csvLine e) rs)"
proof -
  have "foldl (\<lambda>csv result. csv @ csvLine e result) acc rs = acc @ concat (map (csvLine e) rs)"
    for acc
    by (induction rs arbitrary: acc) simp_all
  then show ?thesis by (simp add: exportResults_def)
qed

lemma exportResults_text:
  "exportResults e rs =
     ''WalletAddress,TokenAddress,TokenSymbol,SpenderAddress,Allowance,Balance,ExposedAmount,Price,ExposedValueUSD,IsInfiniteApproval'' @ [CHR 0x0A]
     @ concat (map (\<lambda>r. walletAddress r @ '','' @ tokenAddress r @ '','' @ tokenSymbol r @ '',''
                    @ spenderAddress r @ '','' @ allowance r @ '','' @ balance r @ '',''
                    @ exposedAmount r @ '',''
                    @ (case price r of Some p \<Rightarrow> numberToString e p | None \<Rightarrow> ''unknown'') @ '',''
                    @ (case exposedValueUSD r of
                         Some v \<Rightarrow> toFixed e v 2 | None \<Rightarrow> ''unknown'') @ '',''
                    @ (if isInfiniteApproval r then ''true'' else ''false'') @ [CHR 0x0A]) rs)"
proof -
  have "csvLine e = (\<lambda>r. walletAddress r @ '','' @ tokenAddress r @ '','' @ tokenSymbol r @ '',''
                    @ spenderAddress r @ '','' @ allowance r @ '','' @ balance r @ '',''
                    @ exposedAmount r @ '',''
                    @ (case price r of Some p \<Rightarrow> numberToString e p | None \<Rightarrow> ''unknown'') @ '',''
                    @ (case exposedValueUSD r of
                         Some v \<Rightarrow> toFixed e v 2 | None \<Rightarrow> ''unknown'') @ '',''
                    @ (if isInfiniteApproval r then ''true'' else ''false'') @ [CHR 0x0A])"
    by (rule ext) (simp add: csvLine_def Let_def)
  then show ?thesis
    by (simp add: exportResults_lines csvHeader_def)
qed

lemma total_known_values:
  "foldl (\<lambda>total result.
            case exposedValueUSD result of None \<Rightarrow> total | Some v \<Rightarrow> fadd e total v) a rs =
   foldl (fadd e) a (map (\<lambda>r. the (exposedValueUSD r)) (filter (\<lambda>r. exposedValueUSD r \<noteq> None) rs))"
  by (induction rs arbitrary: a) (auto split: option.splits)

lemma summarize_fields:
  "uniqueWallets (summarize e rs) = card (walletAddress ` set rs)"
  "uniqueTokens (summarize e rs) = card (tokenAddress ` set rs)"
  "uniqueSpenders (summarize e rs) = card (spenderAddress ` set rs)"
  "infiniteApprovals (summarize e rs) = length (filter isInfiniteApproval rs)"
  "exposedValueCount (summarize e rs) = length (filter (\<lambda>r. exposedValueUSD r \<noteq> None) rs)"
  "totalExposedValueUSD (summarize e rs) =
     foldl (fadd e) 0 (map (\<lambda>r. the (exposedValueUSD r)) (filter (\<lambda>r. exposedValueUSD r \<noteq> None) rs))"
  by (simp_all add: summarize_def total_known_values)

text \<open>
  C7. For a collection of more than 100 records the table shows at most 100 rows: the 50
  records of highest known USD value, in descending order of value (records of equal value
  in the order of the collection), followed by those of the first 50 infinite approvals
  whose triple is not yet in the table. Every row is a record of the collection, every one
  of these infinite approvals has its triple in the table, and triples that are distinct
  in the collection are distinct in the table; when the two halves share no triple the
  table is one after the other, and when every triple of the second is in the first it is
  the first. A collection of at most 100 records is shown as it is. The summary and the
  exported file are computed from the whole collection, whatever its size: the summary
  counts the wallets, tokens and spenders of all records, all infinite approvals and all
  known values, and adds up all known values; the file is the header followed by one line
  for each record.
\<close>

theorem display_subset_policy:
  "(100 < length rs \<longrightarrow>
       length (displayRows rs) \<le> 100
     \<and> displayRows rs =
         mergeImportant (take 50 (sortedResults rs)) (take 50 (filter isInfiniteApproval rs))
     \<and> take (length (take 50 (sortedResults rs))) (displayRows rs) = take 50 (sortedResults rs)
     \<and> set (displayRows rs)
         \<subseteq> set (take 50 (sortedResults rs)) \<union> set (take 50 (filter isInfiniteApproval rs))
     \<and> set (displayRows rs) \<subseteq> set rs
     \<and> (\<lambda>r. (walletAddress r, tokenAddress r, spenderAddress r)) ` set (take 50 (filter isInfiniteApproval rs))
         \<subseteq> (\<lambda>r. (walletAddress r, tokenAddress r, spenderAddress r)) ` set (displayRows rs)
     \<and> (distinct (map (\<lambda>r. (walletAddress r, tokenAddress r, spenderAddress r)) rs) \<longrightarrow>
          distinct (map (\<lambda>r. (walletAddress r, tokenAddress r, spenderAddress r)) (displayRows rs)))
     \<and> (distinct (map (\<lambda>r. (walletAddress r, tokenAddress r, spenderAddress r))
                    (take 50 (sortedResults rs) @ take 50 (filter isInfiniteApproval rs))) \<longrightarrow>
          displayRows rs = take 50 (sortedResults rs) @ take 50 (filter isInfiniteApproval rs))
     \<and> ((\<lambda>r. (walletAddress r, tokenAddress r, spenderAddress r)) ` set (take 50 (filter isInfiniteApproval rs))
           \<subseteq> (\<lambda>r. (walletAddress r, tokenAddress r, spenderAddress r)) ` set (take 50 (sortedResults rs)) \<longrightarrow>
          displayRows rs = take 50 (sortedResults rs)))
   \<and> (length rs \<le> 100 \<longrightarrow> displayRows rs = rs)
   \<and> mset (sortedResults rs) = mset (filter (\<lambda>r. exposedValueUSD r \<noteq> None) rs)
   \<and> sorted_wrt (\<lambda>a b. the (exposedValueUSD b) \<le> the (exposedValueUSD a)) (sortedResults rs)
   \<and> (\<forall>x \<in> set (take 50 (sortedResults rs)). \<forall>y \<in> set (drop 50 (sortedResults rs)).
          the (exposedValueUSD y) \<le> the (exposedValueUSD x))
   \<and> filter (\<lambda>r. exposedValueUSD r = Some v) (sortedResults rs) =
         filter (\<lambda>r. exposedValueUSD r = Some v) rs
   \<and> (rs \<noteq> [] \<longrightarrow> displayResults e rs = Some (displayRows rs, summarize e rs))
   \<and> uniqueWallets (summarize e rs) = card (walletAddress ` set rs)
   \<and> uniqueTokens (summarize e rs) = card (tokenAddress ` set rs)
   \<and> uniqueSpenders (summarize e rs) = card (spenderAddress ` set rs)
   \<and> infiniteApprovals (summarize e rs) = length (filter isInfiniteApproval rs)
   \<and> exposedValueCount (summarize e rs) = length (filter (\<lambda>r. exposedValueUSD r \<noteq> None) rs)
   \<and> totalExposedValueUSD (summarize e rs) =
       foldl (fadd e) 0 (map (\<lambda>r. the (exposedValueUSD r)) (filter (\<lambda>r. exposedValueUSD r \<noteq> None) rs))
   \<and> exportResults e rs =
       ''WalletAddress,TokenAddress,TokenSymbol,SpenderAddress,Allowance,Balance,ExposedAmount,Price,ExposedValueUSD,IsInfiniteApproval'' @ [CHR 0x0A]
       @ concat (map (\<lambda>r. walletAddress r @ '','' @ tokenAddress r @ '','' @ tokenSymbol r @ '',''
                    @ spenderAddress r @ '','' @ allowance r @ '','' @ balance r @ '',''
                    @ exposedAmount r @ '',''
                    @ (case price r of Some p \<Rightarrow> numberToString e p | None \<Rightarrow> ''unknown'') @ '',''
                    @ (case exposedValueUSD r of
                         Some v \<Rightarrow> toFixed e v 2 | None \<Rightarrow> ''unknown'') @ '',''
                    @ (if isInfiniteApproval r then ''true'' else ''false'') @ [CHR 0x0A]) rs)
   \<and> report e rs True = (displayResults e rs, Some (exportResults e rs))"
proof -
  let ?high = "take 50 (sortedResults rs)"
  let ?inf = "take 50 (filter isInfiniteApproval rs)"
  have d: "(100 < length rs \<longrightarrow>
       length (displayRows rs) \<le> 100
     \<and> displayRows rs =
         mergeImportant (take 50 (sortedResults rs)) (take 50 (filter isInfiniteApproval rs))
     \<and> take (length (take 50 (sortedResults rs))) (displayRows rs) = take 50 (sortedResults rs)
     \<and> set (displayRows rs)
         \<subseteq> set (take 50 (sortedResults rs)) \<union> set (take 50 (filter isInfiniteApproval rs))
     \<and> set (displayRows rs) \<subseteq> set rs
     \<and> (\<lambda>r. (walletAddress r, tokenAddress r, spenderAddress r)) ` set (take 50 (filter isInfiniteApproval rs))
         \<subseteq> (\<lambda>r. (walletAddress r, tokenAddress r, spenderAddress r)) ` set (displayRows rs)
     \<and> (distinct (map (\<lambda>r. (walletAddress r, tokenAddress r, spenderAddress r)) rs) \<longrightarrow>
          distinct (map (\<lambda>r. (walletAddress r, tokenAddress r, spenderAddress r)) (displayRows rs)))
     \<and> (distinct (map (\<lambda>r. (walletAddress r, tokenAddress r, spenderAddress r))
                    (take 50 (sortedResults rs) @ take 50 (filter isInfiniteApproval rs))) \<longrightarrow>
          displayRows rs = take 50 (sortedResults rs) @ take 50 (filter isInfiniteApproval rs))
     \<and> ((\<lambda>r. (walletAddress r, tokenAddress r, spenderAddress r)) ` set (take 50 (filter isInfiniteApproval rs))
           \<subseteq> (\<lambda>r. (walletAddress r, tokenAddress r, spenderAddress r)) ` set (take 50 (sortedResults rs)) \<longrightarrow>
          displayRows rs = take 50 (sortedResults rs)))"
  proof
    assume l: "100 < length rs"
    note d = displayRows_large [OF l]
    have 1: "length (displayRows rs) \<le> 100"
    proof -
      have "length (displayRows rs) \<le> length ?high + length ?inf"
        unfolding d by (rule length_mergeImportant)
      also have "\<dots> \<le> 100" by simp
      finally show ?thesis .
    qed
    have 3: "take (length ?high) (displayRows rs) = ?high"
      unfolding d by (rule mergeImportant_prefix)
    have 7: "set (displayRows rs) \<subseteq> set ?high \<union> set ?inf"
      unfolding d by (rule set_mergeImportant)
    have "set ?high \<subseteq> set (sortedResults rs)" by (rule set_take_subset)
    also have "\<dots> \<subseteq> set rs" by (auto simp: sortedResults_def)
    finally have h: "set ?high \<subseteq> set rs" .
    have "set ?inf \<subseteq> set (filter isInfiniteApproval rs)" by (rule set_take_subset)
    then have i: "set ?inf \<subseteq> set rs" by auto
    from 7 h i have 8: "set (displayRows rs) \<subseteq> set rs" by blast
    have 9: "triple ` set ?inf \<subseteq> triple ` set (displayRows rs)"
      unfolding d by (rule mergeImportant_covers)
    have 10: "distinct (map triple rs) \<longrightarrow> distinct (map triple (displayRows rs))"
      unfolding d by (intro impI distinct_mergeImportant distinct_sortedResults)
    have 11: "distinct (map triple (?high @ ?inf)) \<longrightarrow> displayRows rs = ?high @ ?inf"
      unfolding d by (intro impI mergeImportant_disjoint)
    have 12: "triple ` set ?inf \<subseteq> triple ` set ?high \<longrightarrow> displayRows rs = ?high"
      unfolding d by (intro impI mergeImportant_absorbed)
    from 1 d 3 7 8 9 10 11 12
    show "length (displayRows rs) \<le> 100
     \<and> displayRows rs = mergeImportant ?high ?inf
     \<and> take (length ?high) (displayRows rs) = ?high
     \<and> set (displayRows rs) \<subseteq> set ?high \<union> set ?inf
     \<and> set (displayRows rs) \<subseteq> set rs
     \<and> (\<lambda>r. (walletAddress r, tokenAddress r, spenderAddress r)) ` set ?inf
         \<subseteq> (\<lambda>r. (walletAddress r, tokenAddress r, spenderAddress r)) ` set (displayRows rs)
     \<and> (distinct (map (\<lambda>r. (walletAddress r, tokenAddress r, spenderAddress r)) rs) \<longrightarrow>
          distinct (map (\<lambda>r. (walletAddress r, tokenAddress r, spenderAddress r)) (displayRows rs)))
     \<and> (distinct (map (\<lambda>r. (walletAddress r, tokenAddress r, spenderAddress r)) (?high @ ?inf)) \<longrightarrow>
          displayRows rs = ?high @ ?inf)
     \<and> ((\<lambda>r. (walletAddress r, tokenAddress r, spenderAddress r)) ` set ?inf
           \<subseteq> (\<lambda>r. (walletAddress r, tokenAddress r, spenderAddress r)) ` set ?high \<longrightarrow>
          displayRows rs = ?high)"
      unfolding triple_fields by (intro conjI)
  qed
  have s: "(length rs \<le> 100 \<longrightarrow> displayRows rs = rs)"
    by (simp add: displayRows_def MAX_DISPLAY_ROWS_def)
  have t: "(\<forall>x \<in> set (take 50 (sortedResults rs)). \<forall>y \<in> set (drop 50 (sortedResults rs)).
          the (exposedValueUSD y) \<le> the (exposedValueUSD x))"
    using sortedResults_top by blast
  have r: "(rs \<noteq> [] \<longrightarrow> displayResults e rs = Some (displayRows rs, summarize e rs))"
    by (simp add: displayResults_def)
  have p: "report e rs True = (displayResults e rs, Some (exportResults e rs))"
    by (simp add: report_def)
  show ?thesis
    by (intro conjI d s mset_sortedResults sortedResults_descending t sortedResults_stable r
          summarize_fields exportResults_text p)
qed

lemma sort_key_replicate: "sort_key f (replicate n x) = replicate n x"
proof (induction n)
  case 0
  show ?case by simp
next
  case (Suc n)
  have "insort_key f x (replicate n x) = x # replicate n x"
    by (cases n) simp_all
  with Suc show ?case by simp
qed

lemma foldl_add_replicate: "foldl (+) a (replicate n (1::real)) = a + real n"
  by (induction n arbitrary: a) simp_all

lemma tableRecords_sorted:
  "sortedResults tableRecords =
     [tableRecord ''T'' ''M'' (Some 9) True, tableRecord ''T'' ''S'' (Some 5) False]
     @ replicate 98 (tableRecord ''T'' ''F'' (Some 1) False)"
proof -
  let ?k = "\<lambda>r. - the (exposedValueUSD r)"
  have f: "filter (\<lambda>r. exposedValueUSD r \<noteq> None) tableRecords =
      [tableRecord ''T'' ''S'' (Some 5) False, tableRecord ''T'' ''M'' (Some 9) True]
      @ replicate 98 (tableRecord ''T'' ''F'' (Some 1) False)"
    by (simp add: tableRecords_def tableRecord_def)
  have 1: "insort_key ?k (tableRecord ''T'' ''M'' (Some 9) True) (replicate 98 (tableRecord ''T'' ''F'' (Some 1) False))
      = tableRecord ''T'' ''M'' (Some 9) True # replicate 98 (tableRecord ''T'' ''F'' (Some 1) False)"
    by (rule insort_is_Cons) (simp add: tableRecord_def)
  have 2: "insort_key ?k (tableRecord ''T'' ''S'' (Some 5) False) (replicate 98 (tableRecord ''T'' ''F'' (Some 1) False))
      = tableRecord ''T'' ''S'' (Some 5) False # replicate 98 (tableRecord ''T'' ''F'' (Some 1) False)"
    by (rule insort_is_Cons) (simp add: tableRecord_def)
  have 3: "\<not> the (exposedValueUSD (tableRecord ''T'' ''M'' (Some 9) True)) \<le> the (exposedValueUSD (tableRecord ''T'' ''S'' (Some 5) False))"
    by (simp add: tableRecord_def)
  show ?thesis
    unfolding sortedResults_def f
    by (simp add: sort_key_replicate 1 2 3)
qed

theorem display_subset_policy_witness:
  "length tableRecords = 101
   \<and> sortedResults tableRecords =
       [tableRecord ''T'' ''M'' (Some 9) True, tableRecord ''T'' ''S'' (Some 5) False]
       @ replicate 98 (tableRecord ''T'' ''F'' (Some 1) False)
   \<and> displayRows tableRecords =
       [tableRecord ''T'' ''M'' (Some 9) True, tableRecord ''T'' ''S'' (Some 5) False]
       @ replicate 48 (tableRecord ''T'' ''F'' (Some 1) False)
       @ [tableRecord ''W'' ''N'' None True]
   \<and> length (displayRows tableRecords) = 51
   \<and> uniqueWallets (summarize demoEnv tableRecords) = 1
   \<and> uniqueTokens (summarize demoEnv tableRecords) = 2
   \<and> uniqueSpenders (summarize demoEnv tableRecords) = 4
   \<and> infiniteApprovals (summarize demoEnv tableRecords) = 2
   \<and> exposedValueCount (summarize demoEnv tableRecords) = 100
   \<and> totalExposedValueUSD (summarize demoEnv tableRecords) = 112
   \<and> exportResults demoEnv tableRecords =
       ''WalletAddress,TokenAddress,TokenSymbol,SpenderAddress,Allowance,Balance,ExposedAmount,Price,ExposedValueUSD,IsInfiniteApproval'' @ [CHR 0x0A]
       @ ''A,T,USDT,S,7,9,7,1,5,false'' @ [CHR 0x0A]
       @ ''A,T,USDT,M,'' @ infinitySymbol @ '',9,7,1,9,true'' @ [CHR 0x0A]
       @ ''A,W,USDT,N,'' @ infinitySymbol @ '',9,7,unknown,unknown,true'' @ [CHR 0x0A]
       @ concat (replicate 98 (''A,T,USDT,F,7,9,7,1,1,false'' @ [CHR 0x0A]))"
proof -
  note t = display_subset_policy [where rs = tableRecords and e = demoEnv]
  have l: "length tableRecords = 101" by (simp add: tableRecords_def)
  then have "100 < length tableRecords" by simp
  with t [THEN conjunct1]
  have m: "displayRows tableRecords =
      mergeImportant (take 50 (sortedResults tableRecords))
        (take 50 (filter isInfiniteApproval tableRecords))"
    by blast
  have i: "take 50 (filter isInfiniteApproval tableRecords) =
      [tableRecord ''T'' ''M'' (Some 9) True, tableRecord ''W'' ''N'' None True]"
    by (simp add: tableRecords_def tableRecord_def)
  have h: "take 50 (sortedResults tableRecords) =
      [tableRecord ''T'' ''M'' (Some 9) True, tableRecord ''T'' ''S'' (Some 5) False]
      @ replicate 48 (tableRecord ''T'' ''F'' (Some 1) False)"
    by (simp add: tableRecords_sorted)
  have d: "displayRows tableRecords =
       [tableRecord ''T'' ''M'' (Some 9) True, tableRecord ''T'' ''S'' (Some 5) False]
       @ replicate 48 (tableRecord ''T'' ''F'' (Some 1) False)
       @ [tableRecord ''W'' ''N'' None True]"
    unfolding m i h
    by (simp add: list_ex_iff sameTriple_def tableRecord_def)
  have fa: "fadd demoEnv = (+)" by (rule ext, rule ext) (simp add: demoEnv_def)
  have kn: "filter (\<lambda>r. exposedValueUSD r \<noteq> None) tableRecords =
      [tableRecord ''T'' ''S'' (Some 5) False, tableRecord ''T'' ''M'' (Some 9) True]
      @ replicate 98 (tableRecord ''T'' ''F'' (Some 1) False)"
    by (simp add: tableRecords_def tableRecord_def)
  have st: "set tableRecords =
      {tableRecord ''T'' ''S'' (Some 5) False, tableRecord ''T'' ''M'' (Some 9) True, tableRecord ''W'' ''N'' None True, tableRecord ''T'' ''F'' (Some 1) False}"
    by (auto simp: tableRecords_def)
  from t have "uniqueWallets (summarize demoEnv tableRecords) = card (walletAddress ` set tableRecords)"
    by blast
  moreover have "walletAddress ` set tableRecords = {''A''}"
    by (auto simp: st tableRecord_def)
  ultimately have 1: "uniqueWallets (summarize demoEnv tableRecords) = 1"
    by simp
  from t have "uniqueTokens (summarize demoEnv tableRecords) = card (tokenAddress ` set tableRecords)"
    by blast
  moreover have "tokenAddress ` set tableRecords = {''T'', ''W''}"
    by (auto simp: st tableRecord_def)
  ultimately have 2: "uniqueTokens (summarize demoEnv tableRecords) = 2"
    by simp
  from t have "uniqueSpenders (summarize demoEnv tableRecords) = card (spenderAddress ` set tableRecords)"
    by blast
  moreover have "spenderAddress ` set tableRecords = {''S'', ''M'', ''N'', ''F''}"
    by (auto simp: st tableRecord_def)
  ultimately have 3: "uniqueSpenders (summarize demoEnv tableRecords) = 4"
    by simp
  from t have "infiniteApprovals (summarize demoEnv tableRecords)
      = length (filter isInfiniteApproval tableRecords)"
    by blast
  then have 4: "infiniteApprovals (summarize demoEnv tableRecords) = 2"
    by (simp add: tableRecords_def tableRecord_def)
  from t have "exposedValueCount (summarize demoEnv tableRecords)
      = length (filter (\<lambda>r. exposedValueUSD r \<noteq> None) tableRecords)"
    by blast
  then have 5: "exposedValueCount (summarize demoEnv tableRecords) = 100"
    unfolding kn by simp
  from t have "totalExposedValueUSD (summarize demoEnv tableRecords) =
       foldl (fadd demoEnv) 0 (map (\<lambda>r. the (exposedValueUSD r)) (filter (\<lambda>r. exposedValueUSD r \<noteq> None) tableRecords))"
    by blast
  then have 6: "totalExposedValueUSD (summarize demoEnv tableRecords) = 112"
    unfolding kn by (simp add: fa tableRecord_def foldl_add_replicate)
  have ts: "toString 1 = ''1''" "toString 5 = ''5''" "toString 9 = ''9''" by code_simp+
  have ts1: "toString (Suc 0) = ''1''" using ts(1) by simp
  have ns: "numberToString demoEnv x = toString (nat \<lfloor>x\<rfloor>)"
    "toFixed demoEnv x n = toString (nat \<lfloor>x\<rfloor>)" for x n
    by (simp_all add: demoEnv_def)
  from t have ex: "exportResults demoEnv tableRecords =
       ''WalletAddress,TokenAddress,TokenSymbol,SpenderAddress,Allowance,Balance,ExposedAmount,Price,ExposedValueUSD,IsInfiniteApproval'' @ [CHR 0x0A]
       @ concat (map (\<lambda>r. walletAddress r @ '','' @ tokenAddress r @ '','' @ tokenSymbol r @ '',''
                    @ spenderAddress r @ '','' @ allowance r @ '','' @ balance r @ '',''
                    @ exposedAmount r @ '',''
                    @ (case price r of Some p \<Rightarrow> numberToString demoEnv p | None \<Rightarrow> ''unknown'') @ '',''
                    @ (case exposedValueUSD r of
                         Some v \<Rightarrow> toFixed demoEnv v 2 | None \<Rightarrow> ''unknown'') @ '',''
                    @ (if isInfiniteApproval r then ''true'' else ''false'') @ [CHR 0x0A]) tableRecords)"
    by blast
  have 7: "exportResults demoEnv tableRecords =
       ''WalletAddress,TokenAddress,TokenSymbol,SpenderAddress,Allowance,Balance,ExposedAmount,Price,ExposedValueUSD,IsInfiniteApproval'' @ [CHR 0x0A]
       @ ''A,T,USDT,S,7,9,7,1,5,false'' @ [CHR 0x0A]
       @ ''A,T,USDT,M,'' @ infinitySymbol @ '',9,7,1,9,true'' @ [CHR 0x0A]
       @ ''A,W,USDT,N,'' @ infinitySymbol @ '',9,7,unknown,unknown,true'' @ [CHR 0x0A]
       @ concat (replicate 98 (''A,T,USDT,F,7,9,7,1,1,false'' @ [CHR 0x0A]))"
    unfolding ex by (simp add: tableRecords_def tableRecord_def ns ts ts1)
  from l tableRecords_sorted d 1 2 3 4 5 6 7 show ?thesis
    by (intro conjI) simp_all
qed

end
